theory Spec2Isabelle
  imports Main
begin

section \<open>Data model of \<^verbatim>\<open>InvoiceEscrow.sol\<close>\<close>

text \<open>
  Addresses and \<^verbatim>\<open>uint256\<close> values are natural numbers. Solidity 0.8 checks every
  \<^verbatim>\<open>+\<close>, \<^verbatim>\<open>-\<close> and \<^verbatim>\<open>*\<close> on \<^verbatim>\<open>uint256\<close> and reverts with a panic when the result
  leaves the range \<open>0 .. 2^256 - 1\<close>; the three checked operations below write that out.
  The address \<open>0\<close> is \<^verbatim>\<open>address(0)\<close>, which as a token denotes the native asset.
\<close>

type_synonym address = nat

datatype InvoiceStatus =
  Created | Paid | Approved | Completed | Disputed | Cancelled | Refunded

record PaymentTerms =
  paymentWindow :: nat
  earlyPaymentDiscountBps :: nat
  earlyPaymentDeadline :: nat
  requiresApproval :: bool
  arbitrator :: address

record Invoice =
  invoice_id :: nat
  provider :: address
  client :: address
  amount :: nat
  token :: address
  terms :: PaymentTerms
  status :: InvoiceStatus
  createdAt :: nat
  dueDate :: nat
  paidAt :: nat
  ipfsHash :: string

text \<open>
  Every way a call can revert. The constructors stand for the revert reasons of the source:
  \<^item> \<open>EnforcedPause\<close>, \<open>ExpectedPause\<close>: \<^verbatim>\<open>whenNotPaused\<close> and \<^verbatim>\<open>whenPaused\<close> of Pausable;
  \<^item> \<open>ReentrancyGuardReentrantCall\<close>: \<^verbatim>\<open>nonReentrant\<close>;
  \<^item> \<open>OwnableUnauthorizedAccount\<close>, \<open>OwnableInvalidOwner\<close>: Ownable;
  \<^item> \<open>Panic\<close>: checked arithmetic left the \<^verbatim>\<open>uint256\<close> range;
  \<^item> \<open>TransferFailed\<close>: an asset transfer could not be carried out;
  \<^item> \<open>InvoiceDoesNotExist\<close>: "Invoice does not exist";
  \<^item> \<open>OnlyProvider\<close>: "Only provider can call this";
  \<^item> \<open>OnlyClient\<close>: "Only client can call this";
  \<^item> \<open>OnlyProviderOrClient\<close>: "Only provider or client can call this";
  \<^item> \<open>InvalidFeeCollector\<close>: "Invalid fee collector";
  \<^item> \<open>InvalidClientAddress\<close>: "Invalid client address";
  \<^item> \<open>ProviderAndClientSame\<close>: "Provider and client cannot be the same";
  \<^item> \<open>AmountMustBePositive\<close>: "Amount must be greater than 0";
  \<^item> \<open>TokenNotSupported\<close>: "Token not supported";
  \<^item> \<open>InvalidPaymentWindow\<close>: "Invalid payment window";
  \<^item> \<open>DiscountTooHigh\<close>: "Discount too high";
  \<^item> \<open>IPFSHashRequired\<close>: "IPFS hash required";
  \<^item> \<open>InvoiceCannotBePaid\<close>: "Invoice cannot be paid";
  \<^item> \<open>InvoiceHasExpired\<close>: "Invoice has expired";
  \<^item> \<open>IncorrectPaymentAmount\<close>: "Incorrect payment amount";
  \<^item> \<open>ShouldNotSendETH\<close>: "Should not send ETH for token payment";
  \<^item> \<open>InvoiceNotInPaidStatus\<close>: "Invoice not in paid status";
  \<^item> \<open>InvoiceDoesNotRequireApproval\<close>: "Invoice does not require approval";
  \<^item> \<open>InvoiceNotApproved\<close>: "Invoice not approved";
  \<^item> \<open>NoFundsInEscrow\<close>: "No funds in escrow";
  \<^item> \<open>CannotDisputeInCurrentStatus\<close>: "Cannot dispute invoice in current status";
  \<^item> \<open>DisputeReasonRequired\<close>: "Dispute reason required";
  \<^item> \<open>InvoiceNotDisputed\<close>: "Invoice not disputed";
  \<^item> \<open>OnlyArbitrator\<close>: "Only arbitrator can resolve dispute";
  \<^item> \<open>CanOnlyCancelUnpaid\<close>: "Can only cancel unpaid invoices".
\<close>

datatype error =
    EnforcedPause | ExpectedPause | ReentrancyGuardReentrantCall
  | OwnableUnauthorizedAccount | OwnableInvalidOwner
  | Panic | TransferFailed
  | InvoiceDoesNotExist | OnlyProvider | OnlyClient | OnlyProviderOrClient
  | InvalidFeeCollector
  | InvalidClientAddress | ProviderAndClientSame | AmountMustBePositive
  | TokenNotSupported | InvalidPaymentWindow | DiscountTooHigh | IPFSHashRequired
  | InvoiceCannotBePaid | InvoiceHasExpired | IncorrectPaymentAmount | ShouldNotSendETH
  | InvoiceNotInPaidStatus | InvoiceDoesNotRequireApproval
  | InvoiceNotApproved | NoFundsInEscrow
  | CannotDisputeInCurrentStatus | DisputeReasonRequired
  | InvoiceNotDisputed | OnlyArbitrator
  | CanOnlyCancelUnpaid

text \<open>The events of the contract, with the arguments of each \<^verbatim>\<open>emit\<close>.\<close>

datatype event =
    InvoiceCreated nat address address nat address string
  | PaymentMade nat address nat nat bool
  | InvoiceApproved nat address
  | FundsReleased nat address nat nat
  | DisputeRaised nat address string
  | DisputeResolved nat address bool
  | InvoiceCancelled nat address

text \<open>
  The order in which a call acts is kept in a trace: the assignments to
  \<^verbatim>\<open>escrowBalances[id]\<close> and to \<^verbatim>\<open>invoice.status\<close>, the asset transfers into and out of
  the contract (token, counterparty, amount) and the emitted events, each appended when
  the statement runs.
\<close>

datatype effect =
    EscrowWrite nat nat
  | StatusWrite nat InvoiceStatus
  | TransferIn address address nat
  | TransferOut address address nat
  | Emit event

text \<open>
  The contract's storage, together with the part of the world it acts on: its own
  address \<open>this\<close>, the balance of every holder in every token (\<open>balances tok a\<close>;
  token \<open>0\<close> is the native asset), and the transfers that fail whatever the balance
  (\<open>blocked tok src dst\<close>, see the transfers below). Solidity mappings are total, every
  key starting at the zero value, so they are total functions here. \<open>entered\<close> is the flag of
  ReentrancyGuard, \<open>paused\<close> the one of Pausable, \<open>owner\<close> the one of Ownable.
\<close>

record ledger =
  nextInvoiceId :: nat
  feeCollector :: address
  supportedTokens :: "address \<Rightarrow> bool"
  invoices :: "nat \<Rightarrow> Invoice"
  escrowBalances :: "nat \<Rightarrow> nat"
  disputeReasons :: "nat \<Rightarrow> string"
  providerInvoices :: "address \<Rightarrow> nat list"
  clientInvoices :: "address \<Rightarrow> nat list"
  owner :: address
  paused :: bool
  entered :: bool
  this :: address
  balances :: "address \<Rightarrow> address \<Rightarrow> nat"
  blocked :: "address \<Rightarrow> address \<Rightarrow> address \<Rightarrow> bool"
  trace :: "effect list"

text \<open>The context of a call: \<^verbatim>\<open>msg.sender\<close> and \<^verbatim>\<open>block.timestamp\<close>.\<close>

record call =
  sender :: address
  now :: nat

section \<open>Constants and primitive steps\<close>

definition PLATFORM_FEE_BPS :: nat where "PLATFORM_FEE_BPS = 50"
definition MAX_PAYMENT_WINDOW :: nat where "MAX_PAYMENT_WINDOW = 90 * 86400"
definition MIN_PAYMENT_WINDOW :: nat where "MIN_PAYMENT_WINDOW = 1 * 86400"
definition MAX_EARLY_DISCOUNT_BPS :: nat where "MAX_EARLY_DISCOUNT_BPS = 1000"
definition usdcAddressTestnet :: address where
  "usdcAddressTestnet = 0x70730E92502A851011C5033F1432876049774239"
definition MAX_UINT256 :: nat where "MAX_UINT256 = 2 ^ 256 - 1"

definition checked_add :: "nat \<Rightarrow> nat \<Rightarrow> error + nat" where
  "checked_add a b = (if a + b \<le> MAX_UINT256 then Inr (a + b) else Inl Panic)"

definition checked_sub :: "nat \<Rightarrow> nat \<Rightarrow> error + nat" where
  "checked_sub a b = (if b \<le> a then Inr (a - b) else Inl Panic)"

definition checked_mul :: "nat \<Rightarrow> nat \<Rightarrow> error + nat" where
  "checked_mul a b = (if a * b \<le> MAX_UINT256 then Inr (a * b) else Inl Panic)"

text \<open>Sequencing of steps that can revert: the first revert ends the call.\<close>

definition and_then :: "error + 'a \<Rightarrow> ('a \<Rightarrow> error + 'b) \<Rightarrow> error + 'b" where
  "and_then m f = (case m of Inl e \<Rightarrow> Inl e | Inr x \<Rightarrow> f x)"

definition set_escrow :: "nat \<Rightarrow> nat \<Rightarrow> ledger \<Rightarrow> ledger" where
  "set_escrow i v s =
     s\<lparr>escrowBalances := (escrowBalances s)(i := v), trace := trace s @ [EscrowWrite i v]\<rparr>"

definition set_status :: "nat \<Rightarrow> InvoiceStatus \<Rightarrow> ledger \<Rightarrow> ledger" where
  "set_status i st s =
     s\<lparr>invoices := (invoices s)(i := (invoices s i)\<lparr>status := st\<rparr>),
       trace := trace s @ [StatusWrite i st]\<rparr>"

definition emit :: "event \<Rightarrow> ledger \<Rightarrow> ledger" where
  "emit ev s = s\<lparr>trace := trace s @ [Emit ev]\<rparr>"

text \<open>
  Asset transfers. The token contracts and the native asset are outside the repository.
  A transfer of \<open>amt\<close> of \<open>tok\<close> from \<open>src\<close> to \<open>dst\<close> fails when \<open>src\<close> holds less than
  \<open>amt\<close>, and when the world blocks it, \<open>blocked tok src dst\<close>: the recipient of the
  native asset is a contract that cannot receive it (it has no \<^verbatim>\<open>receive\<close> or payable
  \<^verbatim>\<open>fallback\<close> function, or needs more gas than \<^verbatim>\<open>transfer\<close> forwards), the token address
  holds no contract, the token refuses the transfer, or the payer has not approved the
  pull of \<^verbatim>\<open>safeTransferFrom\<close>. \<^verbatim>\<open>InvoiceEscrow\<close> declares neither \<^verbatim>\<open>receive\<close> nor
  \<^verbatim>\<open>fallback\<close>, so a native transfer from the contract to itself always fails. A transfer
  that does not fail moves exactly \<open>amt\<close>. It is one atomic step: the receiving side
  runs no code that calls back into the contract.
\<close>

definition move :: "address \<Rightarrow> address \<Rightarrow> address \<Rightarrow> nat \<Rightarrow>
    (address \<Rightarrow> address \<Rightarrow> nat) \<Rightarrow> (address \<Rightarrow> address \<Rightarrow> nat)" where
  "move tok src dst amt b =
     (let b1 = b(tok := (b tok)(src := b tok src - amt))
      in b1(tok := (b1 tok)(dst := b1 tok dst + amt)))"

definition transfer_out :: "address \<Rightarrow> address \<Rightarrow> nat \<Rightarrow> ledger \<Rightarrow> error + ledger" where
  "transfer_out tok dst amt s =
     (if balances s tok (this s) < amt \<or> blocked s tok (this s) dst \<or>
         (tok = 0 \<and> dst = this s)
      then Inl TransferFailed
      else Inr (s\<lparr>balances := move tok (this s) dst amt (balances s),
                  trace := trace s @ [TransferOut tok dst amt]\<rparr>))"

definition transfer_in :: "address \<Rightarrow> address \<Rightarrow> nat \<Rightarrow> ledger \<Rightarrow> error + ledger" where
  "transfer_in tok src amt s =
     (if balances s tok src < amt \<or> blocked s tok src (this s) then Inl TransferFailed
      else Inr (s\<lparr>balances := move tok src (this s) amt (balances s),
                  trace := trace s @ [TransferIn tok src amt]\<rparr>))"

text \<open>
  The transfer statements of the source: \<^verbatim>\<open>recipient.transfer(x)\<close> sends the native
  asset (token \<open>0\<close>), \<^verbatim>\<open>safeTransfer\<close> and \<^verbatim>\<open>safeTransferFrom\<close> of SafeERC20 move a
  token and revert when the token's transfer fails. A call that carries \<^verbatim>\<open>msg.value\<close>
  has moved that value to the contract when the function body starts; it cannot be
  made with more value than the caller holds.
\<close>

definition native_transfer :: "address \<Rightarrow> nat \<Rightarrow> ledger \<Rightarrow> error + ledger" where
  "native_transfer dst amt s = transfer_out 0 dst amt s"

definition safeTransfer :: "address \<Rightarrow> address \<Rightarrow> nat \<Rightarrow> ledger \<Rightarrow> error + ledger" where
  "safeTransfer tok dst amt s = transfer_out tok dst amt s"

definition safeTransferFrom :: "address \<Rightarrow> address \<Rightarrow> nat \<Rightarrow> ledger \<Rightarrow> error + ledger" where
  "safeTransferFrom tok src amt s = transfer_in tok src amt s"

definition receive_value :: "address \<Rightarrow> nat \<Rightarrow> ledger \<Rightarrow> error + ledger" where
  "receive_value src v s =
     (if balances s 0 src < v then Inl TransferFailed
      else Inr (s\<lparr>balances := move 0 src (this s) v (balances s)\<rparr>))"

section \<open>Modifiers\<close>

definition whenNotPaused :: "ledger \<Rightarrow> error + 'a \<Rightarrow> error + 'a" where
  "whenNotPaused s k = (if paused s then Inl EnforcedPause else k)"

definition whenPaused :: "ledger \<Rightarrow> error + 'a \<Rightarrow> error + 'a" where
  "whenPaused s k = (if \<not> paused s then Inl ExpectedPause else k)"

definition onlyOwner :: "call \<Rightarrow> ledger \<Rightarrow> error + 'a \<Rightarrow> error + 'a" where
  "onlyOwner c s k = (if owner s \<noteq> sender c then Inl OwnableUnauthorizedAccount else k)"

definition validInvoice :: "nat \<Rightarrow> ledger \<Rightarrow> error + 'a \<Rightarrow> error + 'a" where
  "validInvoice i s k =
     (if \<not> invoice_id (invoices s i) \<noteq> 0 then Inl InvoiceDoesNotExist else k)"

definition onlyProvider :: "call \<Rightarrow> nat \<Rightarrow> ledger \<Rightarrow> error + 'a \<Rightarrow> error + 'a" where
  "onlyProvider c i s k =
     (if \<not> provider (invoices s i) = sender c then Inl OnlyProvider else k)"

definition onlyClient :: "call \<Rightarrow> nat \<Rightarrow> ledger \<Rightarrow> error + 'a \<Rightarrow> error + 'a" where
  "onlyClient c i s k =
     (if \<not> client (invoices s i) = sender c then Inl OnlyClient else k)"

definition onlyProviderOrClient :: "call \<Rightarrow> nat \<Rightarrow> ledger \<Rightarrow> error + 'a \<Rightarrow> error + 'a" where
  "onlyProviderOrClient c i s k =
     (if \<not> (provider (invoices s i) = sender c \<or> client (invoices s i) = sender c)
      then Inl OnlyProviderOrClient else k)"

text \<open>
  \<^verbatim>\<open>nonReentrant\<close> checks the flag and sets it before the body, and clears it after.
\<close>

definition nonReentrantBefore :: "ledger \<Rightarrow> error + ledger" where
  "nonReentrantBefore s =
     (if entered s then Inl ReentrancyGuardReentrantCall else Inr (s\<lparr>entered := True\<rparr>))"

definition nonReentrantAfter :: "ledger \<Rightarrow> ledger" where
  "nonReentrantAfter s = s\<lparr>entered := False\<rparr>"

section \<open>Settlement: \<^verbatim>\<open>_releaseFunds\<close>\<close>

definition releaseFunds :: "nat \<Rightarrow> ledger \<Rightarrow> error + ledger" where
  "releaseFunds i s =
     (let invoice = invoices s i in
      if \<not> status invoice = Approved then Inl InvoiceNotApproved
      else let escrowAmount = escrowBalances s i in
      if \<not> escrowAmount > 0 then Inl NoFundsInEscrow
      else
        and_then (checked_mul escrowAmount PLATFORM_FEE_BPS) (\<lambda>p.
        let platformFee = p div 10000 in
        and_then (checked_sub escrowAmount platformFee) (\<lambda>providerAmount.
        let s1 = set_escrow i 0 s;
            s2 = set_status i Completed s1 in
        and_then
          (if token invoice = 0 then
             and_then (native_transfer (provider invoice) providerAmount s2) (\<lambda>s3.
               native_transfer (feeCollector s3) platformFee s3)
           else
             and_then (safeTransfer (token invoice) (provider invoice) providerAmount s2) (\<lambda>s3.
               safeTransfer (token invoice) (feeCollector s3) platformFee s3))
          (\<lambda>s4.
        Inr (emit (FundsReleased i (provider invoice) providerAmount platformFee) s4)))))"

section \<open>Invoice lifecycle\<close>

text \<open>
  The constructor: state variable initialisers, Ownable, then the body. \<open>self\<close> is the
  address the contract is deployed at, \<open>bal\<close> and \<open>blk\<close> the balances and the blocked
  transfers of the world it is deployed in.
\<close>

definition zero_terms :: PaymentTerms where
  "zero_terms = \<lparr>paymentWindow = 0, earlyPaymentDiscountBps = 0, earlyPaymentDeadline = 0,
     requiresApproval = False, arbitrator = 0\<rparr>"

definition zero_invoice :: Invoice where
  "zero_invoice = \<lparr>invoice_id = 0, provider = 0, client = 0, amount = 0, token = 0,
     terms = zero_terms, status = Created, createdAt = 0, dueDate = 0, paidAt = 0,
     ipfsHash = []\<rparr>"

definition constructor :: "call \<Rightarrow> address \<Rightarrow> address \<Rightarrow> (address \<Rightarrow> address \<Rightarrow> nat)
    \<Rightarrow> (address \<Rightarrow> address \<Rightarrow> address \<Rightarrow> bool) \<Rightarrow> error + ledger" where
  "constructor c fc self bal blk =
     (if sender c = 0 then Inl OwnableInvalidOwner
      else if \<not> fc \<noteq> 0 then Inl InvalidFeeCollector
      else Inr \<lparr>nextInvoiceId = 1, feeCollector = fc,
        supportedTokens = ((\<lambda>_. False)(0 := True))(usdcAddressTestnet := True),
        invoices = (\<lambda>_. zero_invoice), escrowBalances = (\<lambda>_. 0),
        disputeReasons = (\<lambda>_. []), providerInvoices = (\<lambda>_. []),
        clientInvoices = (\<lambda>_. []), owner = sender c, paused = False, entered = False,
        this = self, balances = bal, blocked = blk, trace = []\<rparr>)"

definition createInvoice :: "call \<Rightarrow> address \<Rightarrow> nat \<Rightarrow> address \<Rightarrow> PaymentTerms \<Rightarrow> string
    \<Rightarrow> ledger \<Rightarrow> error + nat \<times> ledger" where
  "createInvoice c cl amt tok tms ipfs s0 =
     whenNotPaused s0 (and_then (nonReentrantBefore s0) (\<lambda>s.
     if \<not> cl \<noteq> 0 then Inl InvalidClientAddress
     else if \<not> cl \<noteq> sender c then Inl ProviderAndClientSame
     else if \<not> amt > 0 then Inl AmountMustBePositive
     else if \<not> supportedTokens s tok then Inl TokenNotSupported
     else if \<not> (paymentWindow tms \<ge> MIN_PAYMENT_WINDOW \<and>
                 paymentWindow tms \<le> MAX_PAYMENT_WINDOW) then Inl InvalidPaymentWindow
     else if \<not> earlyPaymentDiscountBps tms \<le> MAX_EARLY_DISCOUNT_BPS then Inl DiscountTooHigh
     else if \<not> length ipfs > 0 then Inl IPFSHashRequired
     else
       let invoiceId = nextInvoiceId s in
       and_then (checked_add (nextInvoiceId s) 1) (\<lambda>next.
       and_then (checked_add (now c) (paymentWindow tms)) (\<lambda>due.
       and_then (if earlyPaymentDiscountBps tms > 0
                 then checked_add (now c) (paymentWindow tms div 2) else Inr 0)
         (\<lambda>earlyDeadline.
       let tms' = \<lparr>paymentWindow = paymentWindow tms,
                   earlyPaymentDiscountBps = earlyPaymentDiscountBps tms,
                   earlyPaymentDeadline = earlyDeadline,
                   requiresApproval = requiresApproval tms,
                   arbitrator = arbitrator tms\<rparr>;
           invoice = \<lparr>invoice_id = invoiceId, provider = sender c, client = cl,
                      amount = amt, token = tok, terms = tms', status = Created,
                      createdAt = now c, dueDate = due, paidAt = 0, ipfsHash = ipfs\<rparr>;
           s1 = s\<lparr>nextInvoiceId := next,
                  invoices := (invoices s)(invoiceId := invoice),
                  providerInvoices := (providerInvoices s)
                    (sender c := providerInvoices s (sender c) @ [invoiceId])\<rparr>;
           s2 = s1\<lparr>clientInvoices := (clientInvoices s1)
                    (cl := clientInvoices s1 cl @ [invoiceId])\<rparr>;
           s3 = emit (InvoiceCreated invoiceId (sender c) cl amt tok ipfs) s2
       in Inr (invoiceId, nonReentrantAfter s3))))))"

text \<open>
  \<^verbatim>\<open>makePayment\<close>, in the blocks of its body: the amount due and whether the early
  payment discount applies (\<^verbatim>\<open>paymentAmount\<close>, \<^verbatim>\<open>isEarlyPayment\<close>), the collection of
  that amount in the invoice's token, the bookkeeping with the \<^verbatim>\<open>PaymentMade\<close> event,
  and the release when no approval is required.
\<close>

definition paymentDue :: "nat \<Rightarrow> Invoice \<Rightarrow> error + nat \<times> bool" where
  "paymentDue timestamp invoice =
     (if earlyPaymentDiscountBps (terms invoice) > 0 \<and>
         timestamp \<le> earlyPaymentDeadline (terms invoice)
      then
        and_then (checked_mul (amount invoice) (earlyPaymentDiscountBps (terms invoice)))
          (\<lambda>p. let discount = p div 10000 in
        and_then (checked_sub (amount invoice) discount) (\<lambda>a. Inr (a, True)))
      else Inr (amount invoice, False))"

definition collectPayment :: "call \<Rightarrow> nat \<Rightarrow> Invoice \<Rightarrow> nat \<Rightarrow> ledger \<Rightarrow> error + ledger" where
  "collectPayment c msg_value invoice paymentAmount s =
     (if token invoice = 0 then
        (if \<not> msg_value = paymentAmount then Inl IncorrectPaymentAmount else Inr s)
      else
        (if \<not> msg_value = 0 then Inl ShouldNotSendETH
         else safeTransferFrom (token invoice) (sender c) paymentAmount s))"

definition recordPayment :: "call \<Rightarrow> nat \<Rightarrow> Invoice \<Rightarrow> nat \<Rightarrow> bool \<Rightarrow> ledger \<Rightarrow> ledger" where
  "recordPayment c i invoice paymentAmount isEarlyPayment s1 =
     (let s2 = set_escrow i paymentAmount s1;
          s3 = set_status i
                 (if requiresApproval (terms invoice) then Paid else Approved) s2;
          s4 = s3\<lparr>invoices := (invoices s3)(i := (invoices s3 i)\<lparr>paidAt := now c\<rparr>)\<rparr>
      in emit (PaymentMade i (sender c) (amount invoice) paymentAmount isEarlyPayment) s4)"

definition makePayment :: "call \<Rightarrow> nat \<Rightarrow> nat \<Rightarrow> ledger \<Rightarrow> error + ledger" where
  "makePayment c msg_value i s00 =
     and_then (receive_value (sender c) msg_value s00) (\<lambda>s0.
     whenNotPaused s0 (and_then (nonReentrantBefore s0) (\<lambda>s.
     validInvoice i s (onlyClient c i s (
     let invoice = invoices s i in
     if \<not> status invoice = Created then Inl InvoiceCannotBePaid
     else if \<not> now c \<le> dueDate invoice then Inl InvoiceHasExpired
     else
       and_then (paymentDue (now c) invoice) (\<lambda>(paymentAmount, isEarlyPayment).
       and_then (collectPayment c msg_value invoice paymentAmount s) (\<lambda>s1.
       let s5 = recordPayment c i invoice paymentAmount isEarlyPayment s1 in
       and_then
         (if \<not> requiresApproval (terms invoice) then releaseFunds i s5 else Inr s5)
         (\<lambda>s6. Inr (nonReentrantAfter s6)))))))))"

definition approveInvoice :: "call \<Rightarrow> nat \<Rightarrow> ledger \<Rightarrow> error + ledger" where
  "approveInvoice c i s =
     whenNotPaused s (validInvoice i s (onlyClient c i s (
     let invoice = invoices s i in
     if \<not> status invoice = Paid then Inl InvoiceNotInPaidStatus
     else if \<not> requiresApproval (terms invoice) then Inl InvoiceDoesNotRequireApproval
     else
       let s1 = set_status i Approved s;
           s2 = emit (InvoiceApproved i (sender c)) s1
       in releaseFunds i s2)))"

definition raiseDispute :: "call \<Rightarrow> nat \<Rightarrow> string \<Rightarrow> ledger \<Rightarrow> error + ledger" where
  "raiseDispute c i reason s =
     whenNotPaused s (validInvoice i s (onlyProviderOrClient c i s (
     let invoice = invoices s i in
     if \<not> (status invoice = Paid \<or> status invoice = Approved)
     then Inl CannotDisputeInCurrentStatus
     else if \<not> length reason > 0 then Inl DisputeReasonRequired
     else
       let s1 = set_status i Disputed s;
           s2 = s1\<lparr>disputeReasons := (disputeReasons s1)(i := reason)\<rparr>
       in Inr (emit (DisputeRaised i (sender c) reason) s2))))"

definition resolveDispute :: "call \<Rightarrow> nat \<Rightarrow> bool \<Rightarrow> ledger \<Rightarrow> error + ledger" where
  "resolveDispute c i favorProvider s =
     whenNotPaused s (validInvoice i s (
     let invoice = invoices s i in
     if \<not> status invoice = Disputed then Inl InvoiceNotDisputed
     else if \<not> (sender c = arbitrator (terms invoice) \<or> sender c = owner s)
     then Inl OnlyArbitrator
     else let escrowAmount = escrowBalances s i in
     if \<not> escrowAmount > 0 then Inl NoFundsInEscrow
     else
       let s1 = set_escrow i 0 s in
       and_then
         (if favorProvider then
            let s2 = set_status i Completed s1 in
            and_then (checked_mul escrowAmount PLATFORM_FEE_BPS) (\<lambda>p.
            let platformFee = p div 10000 in
            and_then (checked_sub escrowAmount platformFee) (\<lambda>providerAmount.
            and_then
              (if token invoice = 0 then
                 and_then (native_transfer (provider invoice) providerAmount s2) (\<lambda>s3.
                   native_transfer (feeCollector s3) platformFee s3)
               else
                 and_then (safeTransfer (token invoice) (provider invoice) providerAmount s2)
                   (\<lambda>s3. safeTransfer (token invoice) (feeCollector s3) platformFee s3))
              (\<lambda>s4.
            Inr (emit (FundsReleased i (provider invoice) providerAmount platformFee) s4))))
          else
            let s2 = set_status i Refunded s1 in
            (if token invoice = 0 then native_transfer (client invoice) escrowAmount s2
             else safeTransfer (token invoice) (client invoice) escrowAmount s2))
         (\<lambda>s5. Inr (emit (DisputeResolved i (sender c) favorProvider) s5))))"

definition cancelInvoice :: "call \<Rightarrow> nat \<Rightarrow> ledger \<Rightarrow> error + ledger" where
  "cancelInvoice c i s =
     whenNotPaused s (validInvoice i s (onlyProvider c i s (
     let invoice = invoices s i in
     if \<not> status invoice = Created then Inl CanOnlyCancelUnpaid
     else
       let s1 = set_status i Cancelled s
       in Inr (emit (InvoiceCancelled i (sender c)) s1))))"

section \<open>Administrative surface\<close>

definition addSupportedToken :: "call \<Rightarrow> address \<Rightarrow> ledger \<Rightarrow> error + ledger" where
  "addSupportedToken c tok s =
     onlyOwner c s (Inr (s\<lparr>supportedTokens := (supportedTokens s)(tok := True)\<rparr>))"

definition removeSupportedToken :: "call \<Rightarrow> address \<Rightarrow> ledger \<Rightarrow> error + ledger" where
  "removeSupportedToken c tok s =
     onlyOwner c s (Inr (s\<lparr>supportedTokens := (supportedTokens s)(tok := False)\<rparr>))"

definition setFeeCollector :: "call \<Rightarrow> address \<Rightarrow> ledger \<Rightarrow> error + ledger" where
  "setFeeCollector c fc s =
     onlyOwner c s
       (if \<not> fc \<noteq> 0 then Inl InvalidFeeCollector else Inr (s\<lparr>feeCollector := fc\<rparr>))"

definition pause :: "call \<Rightarrow> ledger \<Rightarrow> error + ledger" where
  "pause c s = onlyOwner c s (whenNotPaused s (Inr (s\<lparr>paused := True\<rparr>)))"

definition unpause :: "call \<Rightarrow> ledger \<Rightarrow> error + ledger" where
  "unpause c s = onlyOwner c s (whenPaused s (Inr (s\<lparr>paused := False\<rparr>)))"

definition emergencyWithdraw :: "call \<Rightarrow> address \<Rightarrow> nat \<Rightarrow> ledger \<Rightarrow> error + ledger" where
  "emergencyWithdraw c tok amt s =
     onlyOwner c s
       (if tok = 0 then native_transfer (owner s) amt s
        else safeTransfer tok (owner s) amt s)"

text \<open>
  The two external functions the contract inherits from Ownable.
\<close>

definition transferOwnership :: "call \<Rightarrow> address \<Rightarrow> ledger \<Rightarrow> error + ledger" where
  "transferOwnership c newOwner s =
     onlyOwner c s
       (if newOwner = 0 then Inl OwnableInvalidOwner else Inr (s\<lparr>owner := newOwner\<rparr>))"

definition renounceOwnership :: "call \<Rightarrow> ledger \<Rightarrow> error + ledger" where
  "renounceOwnership c s = onlyOwner c s (Inr (s\<lparr>owner := 0\<rparr>))"

section \<open>Calls and reachable states\<close>

text \<open>
  Every state-changing external function of the contract, as one operation. The view
  functions read a field of the state and are the record selectors themselves.
\<close>

datatype operation =
    CreateInvoice address nat address PaymentTerms string
  | MakePayment nat nat
  | ApproveInvoice nat
  | RaiseDispute nat string
  | ResolveDispute nat bool
  | CancelInvoice nat
  | AddSupportedToken address
  | RemoveSupportedToken address
  | SetFeeCollector address
  | Pause
  | Unpause
  | EmergencyWithdraw address nat
  | TransferOwnership address
  | RenounceOwnership

fun exec :: "call \<Rightarrow> operation \<Rightarrow> ledger \<Rightarrow> error + ledger" where
  "exec c (CreateInvoice cl amt tok tms ipfs) s =
     and_then (createInvoice c cl amt tok tms ipfs s) (\<lambda>(_, s'). Inr s')"
| "exec c (MakePayment msg_value i) s = makePayment c msg_value i s"
| "exec c (ApproveInvoice i) s = approveInvoice c i s"
| "exec c (RaiseDispute i reason) s = raiseDispute c i reason s"
| "exec c (ResolveDispute i favorProvider) s = resolveDispute c i favorProvider s"
| "exec c (CancelInvoice i) s = cancelInvoice c i s"
| "exec c (AddSupportedToken tok) s = addSupportedToken c tok s"
| "exec c (RemoveSupportedToken tok) s = removeSupportedToken c tok s"
| "exec c (SetFeeCollector fc) s = setFeeCollector c fc s"
| "exec c Pause s = pause c s"
| "exec c Unpause s = unpause c s"
| "exec c (EmergencyWithdraw tok amt) s = emergencyWithdraw c tok amt s"
| "exec c (TransferOwnership newOwner) s = transferOwnership c newOwner s"
| "exec c RenounceOwnership s = renounceOwnership c s"

text \<open>
  A call that reverts leaves the state as it was; \<open>transact\<close> gives the state after
  the call and the revert reason, if any.
\<close>

definition transact :: "call \<Rightarrow> operation \<Rightarrow> ledger \<Rightarrow> ledger \<times> error option" where
  "transact c op s = (case exec c op s of Inl e \<Rightarrow> (s, Some e) | Inr s' \<Rightarrow> (s', None))"

text \<open>Running a list of calls, stopping at the first one that reverts.\<close>

fun run :: "(call \<times> operation) list \<Rightarrow> ledger \<Rightarrow> error + ledger" where
  "run [] s = Inr s"
| "run ((c, op) # rest) s = and_then (exec c op s) (run rest)"

text \<open>
  The states the contract can be in between calls: the state the constructor leaves,
  and every state a successful call leads to. The contract makes no call to itself,
  so the caller is never the contract.
\<close>

inductive reachable :: "ledger \<Rightarrow> bool" where
  deploy: "constructor c fc self bal blk = Inr s \<Longrightarrow> reachable s"
| step: "reachable s \<Longrightarrow> sender c \<noteq> this s \<Longrightarrow> exec c op s = Inr s' \<Longrightarrow> reachable s'"

section \<open>Invalid-state errors and the checks before them\<close>

text \<open>
  The revert reasons of the status checks of the five lifecycle operations
  (the invalid-state errors).
\<close>

definition state_error :: "error \<Rightarrow> bool" where
  "state_error e \<longleftrightarrow>
     e = InvoiceCannotBePaid \<or> e = InvoiceNotInPaidStatus \<or>
     e = CannotDisputeInCurrentStatus \<or> e = InvoiceNotDisputed \<or>
     e = CanOnlyCancelUnpaid"

text \<open>
  The checks a lifecycle operation makes before it looks at the invoice's status, in
  the order of its modifiers: for \<^verbatim>\<open>makePayment\<close> the value sent is held by the caller,
  the contract is not paused, the reentrancy flag is clear, the invoice exists and the
  caller is its client; for the others the pause, the existence and the caller's role.
  \<^verbatim>\<open>resolveDispute\<close> checks the caller only after the status.
\<close>

fun passes_guards :: "call \<Rightarrow> operation \<Rightarrow> ledger \<Rightarrow> bool" where
  "passes_guards c (MakePayment msg_value i) s \<longleftrightarrow>
     msg_value \<le> balances s 0 (sender c) \<and> \<not> paused s \<and> \<not> entered s \<and>
     invoice_id (invoices s i) \<noteq> 0 \<and> client (invoices s i) = sender c"
| "passes_guards c (ApproveInvoice i) s \<longleftrightarrow>
     \<not> paused s \<and> invoice_id (invoices s i) \<noteq> 0 \<and> client (invoices s i) = sender c"
| "passes_guards c (RaiseDispute i reason) s \<longleftrightarrow>
     \<not> paused s \<and> invoice_id (invoices s i) \<noteq> 0 \<and>
     (provider (invoices s i) = sender c \<or> client (invoices s i) = sender c)"
| "passes_guards c (ResolveDispute i favorProvider) s \<longleftrightarrow>
     \<not> paused s \<and> invoice_id (invoices s i) \<noteq> 0"
| "passes_guards c (CancelInvoice i) s \<longleftrightarrow>
     \<not> paused s \<and> invoice_id (invoices s i) \<noteq> 0 \<and> provider (invoices s i) = sender c"
| "passes_guards c _ s \<longleftrightarrow> False"

section \<open>Invariants of the reachable states\<close>

text \<open>Ids that are not assigned yet hold no invoice, no escrow and no dispute reason.\<close>

definition inv_fresh :: "ledger \<Rightarrow> bool" where
  "inv_fresh s \<longleftrightarrow>
     (\<forall>i. nextInvoiceId s \<le> i \<longrightarrow>
        invoice_id (invoices s i) = 0 \<and> escrowBalances s i = 0 \<and> disputeReasons s i = [])"

text \<open>An invoice that exists has the amount and discount that \<^verbatim>\<open>createInvoice\<close> accepts.\<close>

definition inv_terms :: "ledger \<Rightarrow> bool" where
  "inv_terms s \<longleftrightarrow>
     (\<forall>i. invoice_id (invoices s i) \<noteq> 0 \<longrightarrow>
        0 < amount (invoices s i) \<and>
        earlyPaymentDiscountBps (terms (invoices s i)) \<le> MAX_EARLY_DISCOUNT_BPS)"

text \<open>Escrow is empty outside \<open>Paid\<close>, \<open>Approved\<close>, \<open>Disputed\<close>.\<close>

definition inv_escrow :: "ledger \<Rightarrow> bool" where
  "inv_escrow s \<longleftrightarrow>
     (\<forall>i. status (invoices s i) \<noteq> Paid \<and> status (invoices s i) \<noteq> Approved \<and>
          status (invoices s i) \<noteq> Disputed \<longrightarrow> escrowBalances s i = 0)"

text \<open>Escrow is not empty in \<open>Paid\<close> and \<open>Disputed\<close>.\<close>

definition inv_funded :: "ledger \<Rightarrow> bool" where
  "inv_funded s \<longleftrightarrow>
     (\<forall>i. status (invoices s i) = Paid \<or> status (invoices s i) = Disputed \<longrightarrow>
          0 < escrowBalances s i)"

definition inv_no_approved :: "ledger \<Rightarrow> bool" where
  "inv_no_approved s \<longleftrightarrow> (\<forall>i. status (invoices s i) \<noteq> Approved)"

text \<open>A dispute reason is stored only for an invoice that is or was disputed.\<close>

definition inv_reason :: "ledger \<Rightarrow> bool" where
  "inv_reason s \<longleftrightarrow>
     (\<forall>i. disputeReasons s i \<noteq> [] \<longrightarrow>
        status (invoices s i) = Disputed \<or> status (invoices s i) = Completed \<or>
        status (invoices s i) = Refunded)"

text \<open>A disputed invoice has a reason stored.\<close>

definition inv_disputed :: "ledger \<Rightarrow> bool" where
  "inv_disputed s \<longleftrightarrow>
     (\<forall>i. status (invoices s i) = Disputed \<longrightarrow> disputeReasons s i \<noteq> [])"

definition ledger_inv :: "ledger \<Rightarrow> bool" where
  "ledger_inv s \<longleftrightarrow>
     \<not> entered s \<and> inv_fresh s \<and> inv_terms s \<and> inv_escrow s \<and> inv_funded s \<and>
     inv_no_approved s \<and> inv_reason s \<and> inv_disputed s"

text \<open>
  The escrow the contract accounts for in one token: the sum of the escrow balances of
  the invoices denominated in it, over every id assigned so far. The token is covered
  when the contract holds at least that much of it.
\<close>

definition escrowed :: "ledger \<Rightarrow> address \<Rightarrow> nat" where
  "escrowed s tok =
     sum_list (map (\<lambda>i. if token (invoices s i) = tok then escrowBalances s i else 0)
       [0..<nextInvoiceId s])"

definition covered :: "ledger \<Rightarrow> address \<Rightarrow> bool" where
  "covered s tok \<longleftrightarrow> escrowed s tok \<le> balances s tok (this s)"

section \<open>A concrete ledger\<close>

text \<open>
  A deployment used to run the operations on concrete inputs: the deployer is address
  \<open>1\<close>, the fee collector \<open>2\<close>, the contract itself \<open>99\<close>; provider \<open>10\<close>, client
  \<open>20\<close>, arbitrator \<open>30\<close>. The client holds 5000 units of every asset, nobody else
  holds anything, and the world blocks no transfer.
\<close>

definition demo_call :: "address \<Rightarrow> nat \<Rightarrow> call" where
  "demo_call a t = \<lparr>sender = a, now = t\<rparr>"

definition demo_world :: "address \<Rightarrow> address \<Rightarrow> nat" where
  "demo_world = (\<lambda>tok a. if a = 20 then 5000 else 0)"

definition demo_terms :: "nat \<Rightarrow> bool \<Rightarrow> PaymentTerms" where
  "demo_terms bps approval =
     \<lparr>paymentWindow = 2592000, earlyPaymentDiscountBps = bps, earlyPaymentDeadline = 0,
      requiresApproval = approval, arbitrator = 30\<rparr>"

definition demo_deployed :: ledger where
  "demo_deployed =
     \<lparr>nextInvoiceId = 1, feeCollector = 2,
      supportedTokens = ((\<lambda>_. False)(0 := True))(usdcAddressTestnet := True),
      invoices = (\<lambda>_. zero_invoice), escrowBalances = (\<lambda>_. 0),
      disputeReasons = (\<lambda>_. []), providerInvoices = (\<lambda>_. []),
      clientInvoices = (\<lambda>_. []), owner = 1, paused = False, entered = False,
      this = 99, balances = demo_world, blocked = (\<lambda>_ _ _. False), trace = []\<rparr>"

text \<open>
  The state inside a payment of 950 for invoice 1 (face value 1000, native asset) at
  the point where \<^verbatim>\<open>_releaseFunds\<close> is called: the invoice is \<open>Approved\<close> and the
  contract holds the 950.
\<close>

definition demo_invoice :: Invoice where
  "demo_invoice =
     \<lparr>invoice_id = 1, provider = 10, client = 20, amount = 1000, token = 0,
      terms = \<lparr>paymentWindow = 2592000, earlyPaymentDiscountBps = 500,
               earlyPaymentDeadline = 1296100, requiresApproval = False,
               arbitrator = 30\<rparr>,
      status = Approved, createdAt = 100, dueDate = 2592100, paidAt = 200,
      ipfsHash = ''Qm''\<rparr>"

definition demo_held :: ledger where
  "demo_held =
     \<lparr>nextInvoiceId = 2, feeCollector = 2,
      supportedTokens = ((\<lambda>_. False)(0 := True))(usdcAddressTestnet := True),
      invoices = (\<lambda>_. zero_invoice)(1 := demo_invoice),
      escrowBalances = (\<lambda>_. 0)(1 := 950),
      disputeReasons = (\<lambda>_. []), providerInvoices = (\<lambda>_. [])(10 := [1]),
      clientInvoices = (\<lambda>_. [])(20 := [1]), owner = 1, paused = False, entered = True,
      this = 99, balances = (\<lambda>tok a. if a = 20 then 4050 else if a = 99 then 950 else 0),
      blocked = (\<lambda>_ _ _. False), trace = []\<rparr>"

text \<open>
  Calls on that deployment: the provider creates invoice 1 (1000 units of the native
  asset, 30 days, 5% early payment discount) at time 100, the client pays the discounted
  950 at time 200, the provider disputes at time 300, the arbitrator refunds at time 400;
  the administrator withdraws 950 at time 300, or pauses the contract at time 350.
  \<open>demo_state\<close> is the state the deployment is in after a list of calls.
\<close>

definition demo_create :: "bool \<Rightarrow> call \<times> operation" where
  "demo_create approval =
     (demo_call 10 100, CreateInvoice 20 1000 0 (demo_terms 500 approval) ''Qm'')"

definition demo_pay :: "call \<times> operation" where
  "demo_pay = (demo_call 20 200, MakePayment 950 1)"

definition demo_dispute :: "call \<times> operation" where
  "demo_dispute = (demo_call 10 300, RaiseDispute 1 ''late'')"

definition demo_refund :: "call \<times> operation" where
  "demo_refund = (demo_call 30 400, ResolveDispute 1 False)"

definition demo_withdraw :: "call \<times> operation" where
  "demo_withdraw = (demo_call 1 300, EmergencyWithdraw 0 950)"


definition demo_state :: "(call \<times> operation) list \<Rightarrow> ledger" where
  "demo_state ops = (case run ops demo_deployed of Inr s \<Rightarrow> s | Inl e \<Rightarrow> demo_deployed)"

text \<open>
  The same deployment when the contract's address already held 7 units of every asset
  before the constructor ran (a stray transfer), and the states it reaches.
\<close>

definition demo_stray_world :: "address \<Rightarrow> address \<Rightarrow> nat" where
  "demo_stray_world = (\<lambda>tok a. if a = 99 then 7 else demo_world tok a)"

definition demo_stray :: ledger where
  "demo_stray = demo_deployed\<lparr>balances := demo_stray_world\<rparr>"

definition demo_stray_state :: "(call \<times> operation) list \<Rightarrow> ledger" where
  "demo_stray_state ops = (case run ops demo_stray of Inr s \<Rightarrow> s | Inl e \<Rightarrow> demo_stray)"

section \<open>Basic facts\<close>

lemmas prim_defs = checked_add_def checked_sub_def checked_mul_def
  native_transfer_def safeTransfer_def safeTransferFrom_def transfer_out_def transfer_in_def
  receive_value_def set_escrow_def set_status_def emit_def

lemmas modifier_defs = whenNotPaused_def whenPaused_def onlyOwner_def validInvoice_def
  onlyProvider_def onlyClient_def onlyProviderOrClient_def nonReentrantBefore_def
  nonReentrantAfter_def

lemmas demo_defs = demo_call_def demo_world_def demo_terms_def demo_deployed_def
  zero_invoice_def zero_terms_def demo_create_def demo_pay_def demo_dispute_def

lemmas op_defs = createInvoice_def makePayment_def paymentDue_def collectPayment_def
  recordPayment_def approveInvoice_def raiseDispute_def resolveDispute_def cancelInvoice_def
  releaseFunds_def emergencyWithdraw_def

lemmas const_defs = PLATFORM_FEE_BPS_def MAX_PAYMENT_WINDOW_def MIN_PAYMENT_WINDOW_def
  MAX_EARLY_DISCOUNT_BPS_def MAX_UINT256_def usdcAddressTestnet_def

lemmas eval_defs = op_defs modifier_defs prim_defs const_defs demo_defs move_def Let_def

lemma and_then_simps [simp]:
  "and_then (Inl e) f = Inl e"
  "and_then (Inr x) f = f x"
  by (simp_all add: and_then_def)

lemma and_then_Inr_iff:
  "and_then m f = Inr y \<longleftrightarrow> (\<exists>x. m = Inr x \<and> f x = Inr y)"
  by (cases m) simp_all

lemma and_thenE:
  assumes "and_then m f = Inr y"
  obtains x where "m = Inr x" "f x = Inr y"
  using assms by (cases m) simp_all

section \<open>Settlement\<close>

text \<open>
  C1. Whenever \<^verbatim>\<open>_releaseFunds\<close> settles an invoice holding escrow \<open>e\<close>, the platform fee
  is \<open>e * 50 div 10000\<close>, the provider amount is \<open>e\<close> minus that fee, and the two add up
  to \<open>e\<close> exactly. The call first writes escrow balance 0, then status \<open>Completed\<close>, and
  only then issues the two transfers (provider amount to the provider, fee to the fee
  collector) and the \<^verbatim>\<open>FundsReleased\<close> event; nothing else happens in between, and the
  invoice ends with escrow balance 0 and status \<open>Completed\<close>.
\<close>

theorem releaseFunds_settlement:
  assumes "releaseFunds i s = Inr s'"
  shows "(escrowBalances s i - escrowBalances s i * 50 div 10000)
           + escrowBalances s i * 50 div 10000 = escrowBalances s i
       \<and> trace s' = trace s @
           [EscrowWrite i 0, StatusWrite i Completed,
            TransferOut (token (invoices s i)) (provider (invoices s i))
              (escrowBalances s i - escrowBalances s i * 50 div 10000),
            TransferOut (token (invoices s i)) (feeCollector s)
              (escrowBalances s i * 50 div 10000),
            Emit (FundsReleased i (provider (invoices s i))
              (escrowBalances s i - escrowBalances s i * 50 div 10000)
              (escrowBalances s i * 50 div 10000))]
       \<and> escrowBalances s' i = 0 \<and> status (invoices s' i) = Completed"
  using assms
  by (auto simp: releaseFunds_def Let_def and_then_Inr_iff prim_defs PLATFORM_FEE_BPS_def
      split: if_splits)

theorem releaseFunds_settlement_witness:
  "\<exists>s'. releaseFunds 1 demo_held = Inr s'
     \<and> trace s' = [EscrowWrite 1 0, StatusWrite 1 Completed, TransferOut 0 10 946,
          TransferOut 0 2 4, Emit (FundsReleased 1 10 946 4)]
     \<and> escrowBalances s' 1 = 0 \<and> status (invoices s' 1) = Completed"
proof -
  obtain s' where r: "releaseFunds 1 demo_held = Inr s'"
    by (simp add: releaseFunds_def Let_def prim_defs PLATFORM_FEE_BPS_def MAX_UINT256_def
        demo_defs demo_invoice_def demo_held_def move_def)
  from releaseFunds_settlement [OF r] r show ?thesis
    by (simp add: demo_defs demo_invoice_def demo_held_def)
qed

section \<open>What each operation changes\<close>

lemma releaseFunds_effect:
  assumes "releaseFunds i s = Inr s'"
  shows "status (invoices s i) = Approved" "0 < escrowBalances s i"
    "escrowBalances s' = (escrowBalances s)(i := 0)"
    "invoices s' = (invoices s)(i := (invoices s i)\<lparr>status := Completed\<rparr>)"
    "nextInvoiceId s' = nextInvoiceId s" "disputeReasons s' = disputeReasons s"
    "entered s' = entered s" "this s' = this s"
  using assms
  by (auto simp: releaseFunds_def Let_def and_then_Inr_iff prim_defs split: if_splits)

lemma makePayment_cases:
  assumes "makePayment c v i s = Inr s'"
  obtains s0 sg pay early s1 s6 where
    "receive_value (sender c) v s = Inr s0"
    "\<not> paused s0" "nonReentrantBefore s0 = Inr sg"
    "invoice_id (invoices sg i) \<noteq> 0" "client (invoices sg i) = sender c"
    "status (invoices sg i) = Created" "now c \<le> dueDate (invoices sg i)"
    "paymentDue (now c) (invoices sg i) = Inr (pay, early)"
    "collectPayment c v (invoices sg i) pay sg = Inr s1"
    "if \<not> requiresApproval (terms (invoices sg i))
     then releaseFunds i (recordPayment c i (invoices sg i) pay early s1) = Inr s6
     else s6 = recordPayment c i (invoices sg i) pay early s1"
    "s' = nonReentrantAfter s6"
proof -
  from assms obtain s0 where r: "receive_value (sender c) v s = Inr s0"
    and a: "whenNotPaused s0 (and_then (nonReentrantBefore s0) (\<lambda>s.
     validInvoice i s (onlyClient c i s (
     let invoice = invoices s i in
     if \<not> status invoice = Created then Inl InvoiceCannotBePaid
     else if \<not> now c \<le> dueDate invoice then Inl InvoiceHasExpired
     else
       and_then (paymentDue (now c) invoice) (\<lambda>(paymentAmount, isEarlyPayment).
       and_then (collectPayment c v invoice paymentAmount s) (\<lambda>s1.
       let s5 = recordPayment c i invoice paymentAmount isEarlyPayment s1 in
       and_then
         (if \<not> requiresApproval (terms invoice) then releaseFunds i s5 else Inr s5)
         (\<lambda>s6. Inr (nonReentrantAfter s6)))))))) = Inr s'"
    unfolding makePayment_def by (erule and_thenE)
  from a have p: "\<not> paused s0" by (simp add: whenNotPaused_def split: if_splits)
  with a obtain sg where g: "nonReentrantBefore s0 = Inr sg"
    and b: "validInvoice i sg (onlyClient c i sg (
     let invoice = invoices sg i in
     if \<not> status invoice = Created then Inl InvoiceCannotBePaid
     else if \<not> now c \<le> dueDate invoice then Inl InvoiceHasExpired
     else
       and_then (paymentDue (now c) invoice) (\<lambda>(paymentAmount, isEarlyPayment).
       and_then (collectPayment c v invoice paymentAmount sg) (\<lambda>s1.
       let s5 = recordPayment c i invoice paymentAmount isEarlyPayment s1 in
       and_then
         (if \<not> requiresApproval (terms invoice) then releaseFunds i s5 else Inr s5)
         (\<lambda>s6. Inr (nonReentrantAfter s6)))))) = Inr s'"
    by (auto simp: whenNotPaused_def elim: and_thenE)
  from b have guards: "invoice_id (invoices sg i) \<noteq> 0" "client (invoices sg i) = sender c"
    "status (invoices sg i) = Created" "now c \<le> dueDate (invoices sg i)"
    by (simp_all add: validInvoice_def onlyClient_def Let_def split: if_splits)
  with b have d: "and_then (paymentDue (now c) (invoices sg i)) (\<lambda>(paymentAmount, isEarlyPayment).
       and_then (collectPayment c v (invoices sg i) paymentAmount sg) (\<lambda>s1.
       let s5 = recordPayment c i (invoices sg i) paymentAmount isEarlyPayment s1 in
       and_then
         (if \<not> requiresApproval (terms (invoices sg i)) then releaseFunds i s5 else Inr s5)
         (\<lambda>s6. Inr (nonReentrantAfter s6)))) = Inr s'"
    by (simp add: validInvoice_def onlyClient_def Let_def)
  then obtain pe where pd: "paymentDue (now c) (invoices sg i) = Inr pe"
    and e: "(\<lambda>(paymentAmount, isEarlyPayment).
       and_then (collectPayment c v (invoices sg i) paymentAmount sg) (\<lambda>s1.
       let s5 = recordPayment c i (invoices sg i) paymentAmount isEarlyPayment s1 in
       and_then
         (if \<not> requiresApproval (terms (invoices sg i)) then releaseFunds i s5 else Inr s5)
         (\<lambda>s6. Inr (nonReentrantAfter s6)))) pe = Inr s'"
    by (erule and_thenE)
  obtain pay early where pe: "pe = (pay, early)" by (cases pe)
  from e pe obtain s1 where cp: "collectPayment c v (invoices sg i) pay sg = Inr s1"
    and f: "and_then
         (if \<not> requiresApproval (terms (invoices sg i))
          then releaseFunds i (recordPayment c i (invoices sg i) pay early s1)
          else Inr (recordPayment c i (invoices sg i) pay early s1))
         (\<lambda>s6. Inr (nonReentrantAfter s6)) = Inr s'"
    by (auto simp: Let_def elim: and_thenE)
  from f obtain s6 where h: "(if \<not> requiresApproval (terms (invoices sg i))
          then releaseFunds i (recordPayment c i (invoices sg i) pay early s1)
          else Inr (recordPayment c i (invoices sg i) pay early s1)) = Inr s6"
      and fin: "s' = nonReentrantAfter s6"
    by (auto elim: and_thenE)
  from h have last: "if \<not> requiresApproval (terms (invoices sg i))
     then releaseFunds i (recordPayment c i (invoices sg i) pay early s1) = Inr s6
     else s6 = recordPayment c i (invoices sg i) pay early s1"
    by (auto split: if_splits)
  from pd pe have pd': "paymentDue (now c) (invoices sg i) = Inr (pay, early)" by simp
  show thesis by (rule that [OF r p g guards pd' cp last fin])
qed

lemma receive_value_frame:
  assumes "receive_value a v s = Inr s0"
  shows "nextInvoiceId s0 = nextInvoiceId s" "invoices s0 = invoices s"
    "escrowBalances s0 = escrowBalances s" "disputeReasons s0 = disputeReasons s"
    "entered s0 = entered s" "this s0 = this s" "trace s0 = trace s" "paused s0 = paused s"
    "feeCollector s0 = feeCollector s" "owner s0 = owner s"
    "v \<le> balances s 0 a" "balances s0 = move 0 a (this s) v (balances s)"
  using assms by (auto simp: receive_value_def split: if_splits)

lemma nonReentrantBefore_frame:
  assumes "nonReentrantBefore s0 = Inr sg"
  shows "\<not> entered s0" "sg = s0\<lparr>entered := True\<rparr>"
  using assms by (auto simp: nonReentrantBefore_def split: if_splits)

lemma paymentDue_value:
  assumes "paymentDue t iv = Inr (pay, early)"
  shows "early \<longleftrightarrow> 0 < earlyPaymentDiscountBps (terms iv) \<and> t \<le> earlyPaymentDeadline (terms iv)"
    "pay = (if early then amount iv - amount iv * earlyPaymentDiscountBps (terms iv) div 10000
            else amount iv)"
    "early \<Longrightarrow> amount iv * earlyPaymentDiscountBps (terms iv) div 10000 \<le> amount iv"
  using assms
  by (auto simp: paymentDue_def Let_def and_then_Inr_iff checked_mul_def checked_sub_def
      split: if_splits)

lemma collectPayment_frame:
  assumes "collectPayment c v iv pay s = Inr s1"
  shows "nextInvoiceId s1 = nextInvoiceId s" "invoices s1 = invoices s"
    "escrowBalances s1 = escrowBalances s" "disputeReasons s1 = disputeReasons s"
    "entered s1 = entered s" "this s1 = this s" "paused s1 = paused s"
    "feeCollector s1 = feeCollector s" "owner s1 = owner s"
    "token iv = 0 \<Longrightarrow> v = pay \<and> balances s1 = balances s \<and> trace s1 = trace s"
    "token iv \<noteq> 0 \<Longrightarrow> v = 0 \<and> pay \<le> balances s (token iv) (sender c) \<and> 
       balances s1 = move (token iv) (sender c) (this s) pay (balances s) \<and>
       trace s1 = trace s @ [TransferIn (token iv) (sender c) pay]"
  using assms
  by (auto simp: collectPayment_def safeTransferFrom_def transfer_in_def split: if_splits)

lemma recordPayment_sel:
  "nextInvoiceId (recordPayment c i iv pay early s) = nextInvoiceId s"
  "invoices (recordPayment c i iv pay early s) =
     (invoices s)(i := (invoices s i)\<lparr>status := (if requiresApproval (terms iv) then Paid else Approved),
        paidAt := now c\<rparr>)"
  "escrowBalances (recordPayment c i iv pay early s) = (escrowBalances s)(i := pay)"
  "disputeReasons (recordPayment c i iv pay early s) = disputeReasons s"
  "entered (recordPayment c i iv pay early s) = entered s"
  "this (recordPayment c i iv pay early s) = this s"
  "paused (recordPayment c i iv pay early s) = paused s"
  "feeCollector (recordPayment c i iv pay early s) = feeCollector s"
  "owner (recordPayment c i iv pay early s) = owner s"
  "balances (recordPayment c i iv pay early s) = balances s"
  "trace (recordPayment c i iv pay early s) = trace s @
     [EscrowWrite i pay, StatusWrite i (if requiresApproval (terms iv) then Paid else Approved),
      Emit (PaymentMade i (sender c) (amount iv) pay early)]"
  by (simp_all add: recordPayment_def Let_def set_escrow_def set_status_def emit_def)


lemma approveInvoice_cases:
  assumes "approveInvoice c i s = Inr s'"
  shows "\<not> paused s" "invoice_id (invoices s i) \<noteq> 0" "client (invoices s i) = sender c"
    "status (invoices s i) = Paid" "requiresApproval (terms (invoices s i))"
    "releaseFunds i (emit (InvoiceApproved i (sender c)) (set_status i Approved s)) = Inr s'"
  using assms
  by (simp_all add: approveInvoice_def Let_def modifier_defs split: if_splits)

lemma raiseDispute_effect:
  assumes "raiseDispute c i reason s = Inr s'"
  shows "\<not> paused s" "invoice_id (invoices s i) \<noteq> 0"
    "provider (invoices s i) = sender c \<or> client (invoices s i) = sender c"
    "status (invoices s i) = Paid \<or> status (invoices s i) = Approved" "reason \<noteq> []"
    "s' = s\<lparr>invoices := (invoices s)(i := (invoices s i)\<lparr>status := Disputed\<rparr>),
            disputeReasons := (disputeReasons s)(i := reason),
            trace := trace s @ [StatusWrite i Disputed, Emit (DisputeRaised i (sender c) reason)]\<rparr>"
  using assms
  by (simp_all add: raiseDispute_def Let_def modifier_defs set_status_def emit_def
      split: if_splits)

lemma cancelInvoice_effect:
  assumes "cancelInvoice c i s = Inr s'"
  shows "\<not> paused s" "invoice_id (invoices s i) \<noteq> 0" "provider (invoices s i) = sender c"
    "status (invoices s i) = Created"
    "s' = s\<lparr>invoices := (invoices s)(i := (invoices s i)\<lparr>status := Cancelled\<rparr>),
            trace := trace s @ [StatusWrite i Cancelled, Emit (InvoiceCancelled i (sender c))]\<rparr>"
  using assms
  by (simp_all add: cancelInvoice_def Let_def modifier_defs set_status_def emit_def
      split: if_splits)

lemma resolveDispute_effect:
  assumes "resolveDispute c i fp s = Inr s'"
  shows "\<not> paused s" "invoice_id (invoices s i) \<noteq> 0"
    "status (invoices s i) = Disputed"
    "sender c = arbitrator (terms (invoices s i)) \<or> sender c = owner s"
    "0 < escrowBalances s i"
    "escrowBalances s' = (escrowBalances s)(i := 0)"
    "invoices s' = (invoices s)(i := (invoices s i)\<lparr>status := (if fp then Completed else Refunded)\<rparr>)"
    "nextInvoiceId s' = nextInvoiceId s" "disputeReasons s' = disputeReasons s"
    "entered s' = entered s" "this s' = this s"
  using assms
  by (auto simp: resolveDispute_def Let_def modifier_defs and_then_Inr_iff prim_defs
      split: if_splits)

lemma createInvoice_effect:
  assumes "createInvoice c cl amt tok tms ipfs s = Inr (n, s')"
  shows "\<not> paused s" "\<not> entered s" "n = nextInvoiceId s" "cl \<noteq> 0" "cl \<noteq> sender c" "0 < amt"
    "supportedTokens s tok"
    "MIN_PAYMENT_WINDOW \<le> paymentWindow tms" "paymentWindow tms \<le> MAX_PAYMENT_WINDOW"
    "earlyPaymentDiscountBps tms \<le> MAX_EARLY_DISCOUNT_BPS" "ipfs \<noteq> []"
    "nextInvoiceId s' = nextInvoiceId s + 1"
    "invoices s' = (invoices s)(nextInvoiceId s :=
       \<lparr>invoice_id = nextInvoiceId s, provider = sender c, client = cl, amount = amt,
        token = tok,
        terms = \<lparr>paymentWindow = paymentWindow tms,
                 earlyPaymentDiscountBps = earlyPaymentDiscountBps tms,
                 earlyPaymentDeadline =
                   (if 0 < earlyPaymentDiscountBps tms then now c + paymentWindow tms div 2 else 0),
                 requiresApproval = requiresApproval tms, arbitrator = arbitrator tms\<rparr>,
        status = Created, createdAt = now c, dueDate = now c + paymentWindow tms,
        paidAt = 0, ipfsHash = ipfs\<rparr>)"
    "escrowBalances s' = escrowBalances s" "disputeReasons s' = disputeReasons s"
    "\<not> entered s'" "this s' = this s" "balances s' = balances s"
  using assms
  by (auto simp: createInvoice_def Let_def modifier_defs and_then_Inr_iff checked_add_def
      emit_def split: if_splits)

section \<open>The invariant holds in every reachable state\<close>

lemma admin_frame:
  assumes "op = AddSupportedToken t \<or> op = RemoveSupportedToken t \<or> op = SetFeeCollector t \<or>
     op = Pause \<or> op = Unpause \<or> op = EmergencyWithdraw t a \<or> op = TransferOwnership t \<or>
     op = RenounceOwnership"
    and "exec c op s = Inr s'"
  shows "nextInvoiceId s' = nextInvoiceId s" "invoices s' = invoices s"
    "escrowBalances s' = escrowBalances s" "disputeReasons s' = disputeReasons s"
    "entered s' = entered s" "this s' = this s" "sender c = owner s"
  using assms
  by (auto simp: addSupportedToken_def removeSupportedToken_def setFeeCollector_def pause_def
      unpause_def emergencyWithdraw_def transferOwnership_def renounceOwnership_def
      modifier_defs prim_defs split: if_splits)

lemmas inv_defs = inv_fresh_def inv_terms_def inv_escrow_def inv_funded_def
  inv_no_approved_def inv_reason_def inv_disputed_def

lemma inv_frame:
  assumes "ledger_inv s" "nextInvoiceId s' = nextInvoiceId s" "invoices s' = invoices s"
    "escrowBalances s' = escrowBalances s" "disputeReasons s' = disputeReasons s"
    "entered s' = entered s"
  shows "ledger_inv s'"
  using assms by (simp add: ledger_inv_def inv_defs)

lemma inv_constructor:
  assumes "constructor c fc self bal blk = Inr s"
  shows "ledger_inv s"
  using assms
  by (auto simp: constructor_def ledger_inv_def inv_defs zero_invoice_def split: if_splits)

lemma inv_createInvoice:
  assumes "ledger_inv s" "createInvoice c cl amt tok tms ipfs s = Inr (n, s')"
  shows "ledger_inv s'"
proof -
  note e = createInvoice_effect [OF assms(2)]
  from assms(1) show ?thesis
    unfolding ledger_inv_def inv_defs
    by (simp add: e)
qed


lemma Invoice_update_order:
  "(r::Invoice)\<lparr>paidAt := a, status := b\<rparr> = r\<lparr>status := b, paidAt := a\<rparr>"
  by (cases r) simp

lemma discount_less:
  assumes "0 < (a::nat)" "b \<le> 1000"
  shows "a * b div 10000 < a"
proof -
  have "a * b \<le> a * 1000" using assms(2) by simp
  then have "a * b div 10000 \<le> a * 1000 div 10000" by (rule div_le_mono)
  also have "a * 1000 div 10000 = a div 10" by simp
  also have "a div 10 < a" using assms(1) by simp
  finally show ?thesis .
qed

lemma makePayment_effect:
  assumes "makePayment c v i s = Inr s'"
  obtains pay early where
    "\<not> paused s" "\<not> entered s" "\<not> entered s'" "invoice_id (invoices s i) \<noteq> 0"
    "client (invoices s i) = sender c" "status (invoices s i) = Created"
    "now c \<le> dueDate (invoices s i)" "v \<le> balances s 0 (sender c)"
    "paymentDue (now c) (invoices s i) = Inr (pay, early)"
    "if token (invoices s i) = 0 then v = pay else v = 0"
    "requiresApproval (terms (invoices s i)) \<or> 0 < pay"
    "nextInvoiceId s' = nextInvoiceId s" "disputeReasons s' = disputeReasons s"
    "this s' = this s"
    "invoices s' = (invoices s)(i := (invoices s i)
       \<lparr>status := (if requiresApproval (terms (invoices s i)) then Paid else Completed),
        paidAt := now c\<rparr>)"
    "escrowBalances s' = (escrowBalances s)
       (i := (if requiresApproval (terms (invoices s i)) then pay else 0))"
proof -
  from assms obtain s0 sg pay early s1 s6 where
    r: "receive_value (sender c) v s = Inr s0"
    and p: "\<not> paused s0" and g: "nonReentrantBefore s0 = Inr sg"
    and guards: "invoice_id (invoices sg i) \<noteq> 0" "client (invoices sg i) = sender c"
      "status (invoices sg i) = Created" "now c \<le> dueDate (invoices sg i)"
    and pd: "paymentDue (now c) (invoices sg i) = Inr (pay, early)"
    and cp: "collectPayment c v (invoices sg i) pay sg = Inr s1"
    and rel: "if \<not> requiresApproval (terms (invoices sg i))
       then releaseFunds i (recordPayment c i (invoices sg i) pay early s1) = Inr s6
       else s6 = recordPayment c i (invoices sg i) pay early s1"
    and fin: "s' = nonReentrantAfter s6"
    by (rule makePayment_cases)
  note rf = receive_value_frame [OF r]
  note gf = nonReentrantBefore_frame [OF g]
  note cf = collectPayment_frame [OF cp]
  have sg: "invoices sg = invoices s" "escrowBalances sg = escrowBalances s"
    "disputeReasons sg = disputeReasons s" "nextInvoiceId sg = nextInvoiceId s"
    "this sg = this s"
    by (simp_all add: gf rf)
  have tokv: "if token (invoices s i) = 0 then v = pay else v = 0"
    using cf(10,11) by (auto simp: sg)
  show thesis
  proof (cases "requiresApproval (terms (invoices s i))")
    case True
    with rel have s6: "s6 = recordPayment c i (invoices s i) pay early s1"
      by (simp add: sg)
    show thesis
      by (rule that [of pay early])
        (use True p guards pd tokv rf gf in
          \<open>simp_all add: fin s6 nonReentrantAfter_def recordPayment_sel cf sg\<close>)
  next
    case False
    with rel have rl: "releaseFunds i (recordPayment c i (invoices s i) pay early s1) = Inr s6"
      by (simp add: sg)
    note re = releaseFunds_effect [OF rl]
    from re(2) have pos: "0 < pay" by (simp add: recordPayment_sel)
    show thesis
      by (rule that [of pay early])
        (use False p guards pd tokv rf gf pos in
          \<open>simp_all add: fin nonReentrantAfter_def re recordPayment_sel cf sg
              Invoice_update_order\<close>)
  qed
qed

lemma inv_makePayment:
  assumes "ledger_inv s" "makePayment c v i s = Inr s'"
  shows "ledger_inv s'"
proof -
  from assms(2) obtain pay early where
    e: "\<not> entered s'" "invoice_id (invoices s i) \<noteq> 0" "status (invoices s i) = Created"
    "paymentDue (now c) (invoices s i) = Inr (pay, early)"
    "requiresApproval (terms (invoices s i)) \<or> 0 < pay"
    "nextInvoiceId s' = nextInvoiceId s" "disputeReasons s' = disputeReasons s"
    "invoices s' = (invoices s)(i := (invoices s i)
       \<lparr>status := (if requiresApproval (terms (invoices s i)) then Paid else Completed),
        paidAt := now c\<rparr>)"
    "escrowBalances s' = (escrowBalances s)
       (i := (if requiresApproval (terms (invoices s i)) then pay else 0))"
    by (rule makePayment_effect)
  from assms(1) e(2) have tm: "0 < amount (invoices s i)"
    "earlyPaymentDiscountBps (terms (invoices s i)) \<le> 1000"
    by (simp_all add: ledger_inv_def inv_terms_def MAX_EARLY_DISCOUNT_BPS_def)
  have pos: "0 < pay"
    using paymentDue_value(2) [OF e(4)] discount_less [OF tm] tm(1)
    by (simp split: if_splits)
  from assms(1) e(2) have lt: "i < nextInvoiceId s" 
    unfolding ledger_inv_def inv_fresh_def by (meson not_le)
  from assms(1) pos lt show ?thesis
    unfolding ledger_inv_def inv_defs
    by (auto simp add: e)
qed


lemma approveInvoice_effect:
  assumes "approveInvoice c i s = Inr s'"
  shows "\<not> paused s" "invoice_id (invoices s i) \<noteq> 0" "client (invoices s i) = sender c"
    "status (invoices s i) = Paid" "requiresApproval (terms (invoices s i))"
    "0 < escrowBalances s i"
    "escrowBalances s' = (escrowBalances s)(i := 0)"
    "invoices s' = (invoices s)(i := (invoices s i)\<lparr>status := Completed\<rparr>)"
    "nextInvoiceId s' = nextInvoiceId s" "disputeReasons s' = disputeReasons s"
    "entered s' = entered s" "this s' = this s"
  using approveInvoice_cases [OF assms]
    releaseFunds_effect [OF approveInvoice_cases(6) [OF assms]]
  by (simp_all add: set_status_def emit_def)

lemma inv_approveInvoice:
  assumes "ledger_inv s" "approveInvoice c i s = Inr s'"
  shows "ledger_inv s'"
proof -
  note e = approveInvoice_effect [OF assms(2)]
  from assms(1) show ?thesis
    unfolding ledger_inv_def inv_defs by (auto simp add: e)
qed

lemma inv_raiseDispute:
  assumes "ledger_inv s" "raiseDispute c i reason s = Inr s'"
  shows "ledger_inv s'"
proof -
  note e = raiseDispute_effect [OF assms(2)]
  from assms(1) e(4,5) show ?thesis
    unfolding ledger_inv_def inv_defs by (auto simp add: e(6))
qed

lemma inv_resolveDispute:
  assumes "ledger_inv s" "resolveDispute c i fp s = Inr s'"
  shows "ledger_inv s'"
proof -
  note e = resolveDispute_effect [OF assms(2)]
  from assms(1) e(3) show ?thesis
    unfolding ledger_inv_def inv_defs by (auto simp add: e)
qed

lemma inv_cancelInvoice:
  assumes "ledger_inv s" "cancelInvoice c i s = Inr s'"
  shows "ledger_inv s'"
proof -
  note e = cancelInvoice_effect [OF assms(2)]
  from assms(1) e(4) show ?thesis
    unfolding ledger_inv_def inv_defs by (auto simp add: e(5))
qed

lemma inv_exec:
  assumes "ledger_inv s" "exec c op s = Inr s'"
  shows "ledger_inv s'"
proof (cases op)
  case (CreateInvoice cl amt tok tms ipfs)
  with assms(2) obtain n where "createInvoice c cl amt tok tms ipfs s = Inr (n, s')"
    by (auto elim!: and_thenE)
  with assms(1) show ?thesis by (rule inv_createInvoice)
next
  case (MakePayment v i)
  with assms show ?thesis by (simp add: inv_makePayment)
next
  case (ApproveInvoice i)
  with assms show ?thesis by (simp add: inv_approveInvoice)
next
  case (RaiseDispute i r)
  with assms show ?thesis by (simp add: inv_raiseDispute)
next
  case (ResolveDispute i fp)
  with assms show ?thesis by (simp add: inv_resolveDispute)
next
  case (CancelInvoice i)
  with assms show ?thesis by (simp add: inv_cancelInvoice)
next
  case (AddSupportedToken t)
  then show ?thesis using assms admin_frame [of op t _ c s s'] by (intro inv_frame [of s s']) simp_all
next
  case (RemoveSupportedToken t)
  then show ?thesis using assms admin_frame [of op t _ c s s'] by (intro inv_frame [of s s']) simp_all
next
  case (SetFeeCollector t)
  then show ?thesis using assms admin_frame [of op t _ c s s'] by (intro inv_frame [of s s']) simp_all
next
  case Pause
  then show ?thesis using assms admin_frame [of op _ _ c s s'] by (intro inv_frame [of s s']) simp_all
next
  case Unpause
  then show ?thesis using assms admin_frame [of op _ _ c s s'] by (intro inv_frame [of s s']) simp_all
next
  case (EmergencyWithdraw t a)
  then show ?thesis using assms admin_frame [of op t a c s s'] by (intro inv_frame [of s s']) simp_all
next
  case (TransferOwnership t)
  then show ?thesis using assms admin_frame [of op t _ c s s'] by (intro inv_frame [of s s']) simp_all
next
  case RenounceOwnership
  then show ?thesis using assms admin_frame [of op _ _ c s s'] by (intro inv_frame [of s s']) simp_all
qed

lemma reachable_inv: "reachable s \<Longrightarrow> ledger_inv s"
  by (induction rule: reachable.induct) (auto intro: inv_constructor inv_exec)

section \<open>Running lists of calls\<close>

lemma releaseFunds_trace:
  assumes "releaseFunds i s = Inr s'"
  shows "trace s' = trace s @
           [EscrowWrite i 0, StatusWrite i Completed,
            TransferOut (token (invoices s i)) (provider (invoices s i))
              (escrowBalances s i - escrowBalances s i * 50 div 10000),
            TransferOut (token (invoices s i)) (feeCollector s)
              (escrowBalances s i * 50 div 10000),
            Emit (FundsReleased i (provider (invoices s i))
              (escrowBalances s i - escrowBalances s i * 50 div 10000)
              (escrowBalances s i * 50 div 10000))]"
    "balances s' = move (token (invoices s i)) (this s) (feeCollector s)
        (escrowBalances s i * 50 div 10000)
        (move (token (invoices s i)) (this s) (provider (invoices s i))
           (escrowBalances s i - escrowBalances s i * 50 div 10000) (balances s))"
    "escrowBalances s i * 50 div 10000 \<le> escrowBalances s i"
    "escrowBalances s i - escrowBalances s i * 50 div 10000
       \<le> balances s (token (invoices s i)) (this s)"
    "escrowBalances s i * 50 div 10000
       \<le> move (token (invoices s i)) (this s) (provider (invoices s i))
           (escrowBalances s i - escrowBalances s i * 50 div 10000) (balances s)
           (token (invoices s i)) (this s)"
    "feeCollector s' = feeCollector s" "owner s' = owner s" "paused s' = paused s"
  using assms
  by (auto simp: releaseFunds_def Let_def and_then_Inr_iff prim_defs PLATFORM_FEE_BPS_def
      split: if_splits)


lemma exec_this:
  assumes "exec c op s = Inr s'"
  shows "this s' = this s"
proof (cases op)
  case (CreateInvoice cl amt tok tms ipfs)
  with assms obtain n where "createInvoice c cl amt tok tms ipfs s = Inr (n, s')"
    by (auto elim!: and_thenE)
  then show ?thesis by (rule createInvoice_effect)
next
  case (MakePayment v i)
  with assms have "makePayment c v i s = Inr s'" by simp
  then show ?thesis by (rule makePayment_effect)
next
  case (ApproveInvoice i)
  with assms show ?thesis by (simp add: approveInvoice_effect)
next
  case (RaiseDispute i r)
  with assms have "raiseDispute c i r s = Inr s'" by simp
  from raiseDispute_effect(6) [OF this] show ?thesis by simp
next
  case (ResolveDispute i fp)
  with assms show ?thesis by (simp add: resolveDispute_effect)
next
  case (CancelInvoice i)
  with assms have "cancelInvoice c i s = Inr s'" by simp
  from cancelInvoice_effect(5) [OF this] show ?thesis by simp
next
  case (AddSupportedToken t)
  then show ?thesis using assms admin_frame [of op t _ c s s'] by simp
next
  case (RemoveSupportedToken t)
  then show ?thesis using assms admin_frame [of op t _ c s s'] by simp
next
  case (SetFeeCollector t)
  then show ?thesis using assms admin_frame [of op t _ c s s'] by simp
next
  case Pause
  then show ?thesis using assms admin_frame [of op _ _ c s s'] by simp
next
  case Unpause
  then show ?thesis using assms admin_frame [of op _ _ c s s'] by simp
next
  case (EmergencyWithdraw t a)
  then show ?thesis using assms admin_frame [of op t a c s s'] by simp
next
  case (TransferOwnership t)
  then show ?thesis using assms admin_frame [of op t _ c s s'] by simp
next
  case RenounceOwnership
  then show ?thesis using assms admin_frame [of op _ _ c s s'] by simp
qed

lemma reachable_run:
  assumes "reachable s" "list_all (\<lambda>x. sender (fst x) \<noteq> this s) ops" "run ops s = Inr s'"
  shows "reachable s'"
  using assms
proof (induction ops arbitrary: s)
  case Nil
  then show ?case by simp
next
  case (Cons x ops)
  obtain c op where x: "x = (c, op)" by (cases x)
  from Cons.prems(3) x obtain s1 where e: "exec c op s = Inr s1" and r: "run ops s1 = Inr s'"
    by (auto elim!: and_thenE)
  from Cons.prems(1,2) x e have "reachable s1" by (auto intro: reachable.step)
  moreover from Cons.prems(2) exec_this [OF e] have "list_all (\<lambda>x. sender (fst x) \<noteq> this s1) ops"
    by simp
  ultimately show ?case using r by (rule Cons.IH)
qed

lemma demo_reachable:
  assumes "run ops demo_deployed = Inr s" "list_all (\<lambda>x. sender (fst x) \<noteq> 99) ops"
  shows "reachable s"
proof -
  have "constructor (demo_call 1 0) 2 99 demo_world (\<lambda>_ _ _. False) = Inr demo_deployed"
    by (simp add: constructor_def demo_defs)
  then have "reachable demo_deployed" by (rule reachable.deploy)
  moreover have "this demo_deployed = 99" by (simp add: demo_deployed_def)
  ultimately show ?thesis using assms by (auto intro: reachable_run)
qed

lemma demo_state_run:
  "run ops demo_deployed = Inr s \<Longrightarrow> demo_state ops = s"
  by (simp add: demo_state_def)

lemma demo_state_reachable:
  assumes "\<not> isl (run ops demo_deployed)" "list_all (\<lambda>x. sender (fst x) \<noteq> 99) ops"
  shows "reachable (demo_state ops)"
proof -
  from assms(1) obtain s where r: "run ops demo_deployed = Inr s"
    by (cases "run ops demo_deployed") simp_all
  from demo_reachable [OF r assms(2)] demo_state_run [OF r] show ?thesis by simp
qed

section \<open>Creation dates\<close>

text \<open>
  C7. After every successful \<^verbatim>\<open>createInvoice\<close> the stored invoice, under the id the call
  returns, has \<open>dueDate = createdAt + paymentWindow\<close>, and its early payment deadline is
  \<open>createdAt + paymentWindow div 2\<close> when the discount is positive and \<open>0\<close> otherwise.
\<close>

theorem createInvoice_dates:
  assumes "createInvoice c cl amt tok tms ipfs s = Inr (n, s')"
  shows "n = nextInvoiceId s
    \<and> createdAt (invoices s' n) = now c
    \<and> paymentWindow (terms (invoices s' n)) = paymentWindow tms
    \<and> earlyPaymentDiscountBps (terms (invoices s' n)) = earlyPaymentDiscountBps tms
    \<and> dueDate (invoices s' n) =
        createdAt (invoices s' n) + paymentWindow (terms (invoices s' n))
    \<and> earlyPaymentDeadline (terms (invoices s' n)) =
        (if 0 < earlyPaymentDiscountBps (terms (invoices s' n))
         then createdAt (invoices s' n) + paymentWindow (terms (invoices s' n)) div 2
         else 0)"
  using createInvoice_effect [OF assms] by simp

theorem createInvoice_dates_witness:
  "\<exists>s'. createInvoice (demo_call 10 100) 20 1000 0 (demo_terms 500 True) ''Qm'' demo_deployed
          = Inr (1, s')
     \<and> createdAt (invoices s' 1) = 100 \<and> dueDate (invoices s' 1) = 100 + 2592000
     \<and> earlyPaymentDeadline (terms (invoices s' 1)) = 100 + 1296000"
proof -
  obtain s' where r: "createInvoice (demo_call 10 100) 20 1000 0 (demo_terms 500 True) ''Qm''
      demo_deployed = Inr (1, s')"
    by (simp add: eval_defs)
  from createInvoice_dates [OF r] r show ?thesis
    by (simp add: demo_defs)
qed

section \<open>Empty escrow outside the holding states\<close>

text \<open>
  C2. In every reachable state, an invoice id whose status is none of \<open>Paid\<close>,
  \<open>Approved\<close>, \<open>Disputed\<close> has escrow balance 0: so before payment (\<open>Created\<close>) and
  after settlement (\<open>Completed\<close>), refund (\<open>Refunded\<close>) or cancellation (\<open>Cancelled\<close>).
\<close>

theorem escrow_empty_outside_holding:
  assumes "reachable s"
    and "status (invoices s i) \<noteq> Paid" "status (invoices s i) \<noteq> Approved"
      "status (invoices s i) \<noteq> Disputed"
  shows "escrowBalances s i = 0"
  using reachable_inv [OF assms(1)] assms(2-)
  by (simp add: ledger_inv_def inv_escrow_def)

theorem escrow_empty_outside_holding_witness:
  "reachable (demo_state [demo_create False, demo_pay])
   \<and> status (invoices (demo_state [demo_create False, demo_pay]) 1) = Completed
   \<and> escrowBalances (demo_state [demo_create False, demo_pay]) 1 = 0"
proof -
  obtain s where r: "run [demo_create False, demo_pay] demo_deployed = Inr s"
    by (simp add: eval_defs)
  have d: "demo_state [demo_create False, demo_pay] = s"
    using r by (rule demo_state_run)
  have re: "reachable s"
    using r by (rule demo_reachable) (simp add: demo_defs)
  have st: "status (invoices s 1) = Completed"
    using r by (auto simp add: eval_defs)
  from escrow_empty_outside_holding [OF re, of 1] st re show ?thesis
    by (simp add: d)
qed

section \<open>Payment\<close>

lemma makePayment_trace:
  assumes "makePayment c v i s = Inr s'"
  obtains pay early where
    "paymentDue (now c) (invoices s i) = Inr (pay, early)"
    "trace s' = trace s
       @ (if token (invoices s i) = 0 then []
          else [TransferIn (token (invoices s i)) (sender c) pay])
       @ [EscrowWrite i pay,
          StatusWrite i (if requiresApproval (terms (invoices s i)) then Paid else Approved),
          Emit (PaymentMade i (sender c) (amount (invoices s i)) pay early)]
       @ (if requiresApproval (terms (invoices s i)) then []
          else [EscrowWrite i 0, StatusWrite i Completed,
                TransferOut (token (invoices s i)) (provider (invoices s i))
                  (pay - pay * 50 div 10000),
                TransferOut (token (invoices s i)) (feeCollector s) (pay * 50 div 10000),
                Emit (FundsReleased i (provider (invoices s i))
                  (pay - pay * 50 div 10000) (pay * 50 div 10000))])"
proof -
  from assms obtain s0 sg pay early s1 s6 where
    r: "receive_value (sender c) v s = Inr s0"
    and g: "nonReentrantBefore s0 = Inr sg"
    and pd: "paymentDue (now c) (invoices sg i) = Inr (pay, early)"
    and cp: "collectPayment c v (invoices sg i) pay sg = Inr s1"
    and rel: "if \<not> requiresApproval (terms (invoices sg i))
       then releaseFunds i (recordPayment c i (invoices sg i) pay early s1) = Inr s6
       else s6 = recordPayment c i (invoices sg i) pay early s1"
    and fin: "s' = nonReentrantAfter s6"
    by (rule makePayment_cases)
  note rf = receive_value_frame [OF r]
  note gf = nonReentrantBefore_frame [OF g]
  note cf = collectPayment_frame [OF cp]
  have sg: "invoices sg = invoices s" "trace sg = trace s" "feeCollector sg = feeCollector s"
    by (simp_all add: gf rf)
  have tr1: "trace s1 = trace s
       @ (if token (invoices s i) = 0 then []
          else [TransferIn (token (invoices s i)) (sender c) pay])"
    using cf(10,11) by (auto simp: sg)
  show thesis
  proof (cases "requiresApproval (terms (invoices s i))")
    case True
    with rel have s6: "s6 = recordPayment c i (invoices s i) pay early s1"
      by (simp add: sg)
    show thesis
      by (rule that [of pay early])
        (use True pd in \<open>simp_all add: fin s6 nonReentrantAfter_def recordPayment_sel tr1 sg\<close>)
  next
    case False
    with rel have rl: "releaseFunds i (recordPayment c i (invoices s i) pay early s1) = Inr s6"
      by (simp add: sg)
    note rt = releaseFunds_trace(1) [OF rl]
    show thesis
      by (rule that [of pay early])
        (use False pd in \<open>simp_all add: fin nonReentrantAfter_def rt recordPayment_sel tr1 sg cf\<close>)
  qed
qed

text \<open>
  C5. A successful \<^verbatim>\<open>makePayment\<close> writes the escrow balance with exactly the payment
  amount it computed, then the status (\<open>Paid\<close> when the terms require approval,
  \<open>Approved\<close> otherwise), and sets \<open>paidAt\<close> to the current time. When approval is
  required the call ends there, with that escrow balance and status \<open>Paid\<close>. When it is
  not, the settlement runs in the same call: the trace continues with the five effects
  of \<^verbatim>\<open>_releaseFunds\<close>, and the call ends with status \<open>Completed\<close> and escrow balance 0.
\<close>

theorem makePayment_bookkeeping:
  assumes "makePayment c v i s = Inr s'"
  shows "\<exists>pay early.
      paymentDue (now c) (invoices s i) = Inr (pay, early)
    \<and> paidAt (invoices s' i) = now c
    \<and> trace s' = trace s
       @ (if token (invoices s i) = 0 then []
          else [TransferIn (token (invoices s i)) (sender c) pay])
       @ [EscrowWrite i pay,
          StatusWrite i (if requiresApproval (terms (invoices s i)) then Paid else Approved),
          Emit (PaymentMade i (sender c) (amount (invoices s i)) pay early)]
       @ (if requiresApproval (terms (invoices s i)) then []
          else [EscrowWrite i 0, StatusWrite i Completed,
                TransferOut (token (invoices s i)) (provider (invoices s i))
                  (pay - pay * 50 div 10000),
                TransferOut (token (invoices s i)) (feeCollector s) (pay * 50 div 10000),
                Emit (FundsReleased i (provider (invoices s i))
                  (pay - pay * 50 div 10000) (pay * 50 div 10000))])
    \<and> (if requiresApproval (terms (invoices s i))
        then status (invoices s' i) = Paid \<and> escrowBalances s' i = pay
        else status (invoices s' i) = Completed \<and> escrowBalances s' i = 0)"
proof -
  from assms obtain pay early where
    pd: "paymentDue (now c) (invoices s i) = Inr (pay, early)"
    and tr: "trace s' = trace s
       @ (if token (invoices s i) = 0 then []
          else [TransferIn (token (invoices s i)) (sender c) pay])
       @ [EscrowWrite i pay,
          StatusWrite i (if requiresApproval (terms (invoices s i)) then Paid else Approved),
          Emit (PaymentMade i (sender c) (amount (invoices s i)) pay early)]
       @ (if requiresApproval (terms (invoices s i)) then []
          else [EscrowWrite i 0, StatusWrite i Completed,
                TransferOut (token (invoices s i)) (provider (invoices s i))
                  (pay - pay * 50 div 10000),
                TransferOut (token (invoices s i)) (feeCollector s) (pay * 50 div 10000),
                Emit (FundsReleased i (provider (invoices s i))
                  (pay - pay * 50 div 10000) (pay * 50 div 10000))])"
    by (rule makePayment_trace)
  from assms obtain pay' early' where
    pd': "paymentDue (now c) (invoices s i) = Inr (pay', early')"
    and iv: "invoices s' = (invoices s)(i := (invoices s i)
       \<lparr>status := (if requiresApproval (terms (invoices s i)) then Paid else Completed),
        paidAt := now c\<rparr>)"
    and es: "escrowBalances s' = (escrowBalances s)
       (i := (if requiresApproval (terms (invoices s i)) then pay' else 0))"
    by (rule makePayment_effect)
  from pd pd' have same: "pay' = pay" by simp
  have "paidAt (invoices s' i) = now c"
    and "if requiresApproval (terms (invoices s i))
        then status (invoices s' i) = Paid \<and> escrowBalances s' i = pay
        else status (invoices s' i) = Completed \<and> escrowBalances s' i = 0"
    by (simp_all add: iv es same)
  with pd tr show ?thesis by blast
qed

theorem makePayment_bookkeeping_witness:
  "\<exists>s'. makePayment (demo_call 20 200) 950 1 (demo_state [demo_create False]) = Inr s'
     \<and> paidAt (invoices s' 1) = 200
     \<and> trace s' = trace (demo_state [demo_create False]) @
         [EscrowWrite 1 950, StatusWrite 1 Approved, Emit (PaymentMade 1 20 1000 950 True),
          EscrowWrite 1 0, StatusWrite 1 Completed, TransferOut 0 10 946, TransferOut 0 2 4,
          Emit (FundsReleased 1 10 946 4)]
     \<and> status (invoices s' 1) = Completed \<and> escrowBalances s' 1 = 0"
proof -
  obtain s' where r:
    "makePayment (demo_call 20 200) 950 1 (demo_state [demo_create False]) = Inr s'"
    by (simp add: demo_state_def eval_defs)
  from makePayment_bookkeeping [OF r] r show ?thesis
    by (clarsimp simp add: demo_state_def eval_defs)
qed

text \<open>
  C4. A \<^verbatim>\<open>makePayment\<close> for an invoice in status \<open>Created\<close> at a time strictly after its
  due date fails, whoever calls it; when the earlier guards pass (not paused, not
  entered, the invoice exists, the caller is the client and holds the value sent) the
  revert reason is "Invoice has expired". When \<^verbatim>\<open>makePayment\<close> succeeds, the amount due
  is \<open>amount - amount * discountBps div 10000\<close> if the discount is positive and the
  time is at most the early payment deadline, and the full \<open>amount\<close> otherwise; that is
  the value the call must carry for the native asset, the amount pulled from the caller
  for a token, and the amount reported by the \<^verbatim>\<open>PaymentMade\<close> event.
\<close>

theorem makePayment_due:
  "(status (invoices s i) = Created \<and> dueDate (invoices s i) < now c
      \<longrightarrow> (\<exists>e. makePayment c v i s = Inl e))
   \<and> (status (invoices s i) = Created \<and> dueDate (invoices s i) < now c
       \<and> \<not> paused s \<and> \<not> entered s \<and> invoice_id (invoices s i) \<noteq> 0
       \<and> client (invoices s i) = sender c \<and> v \<le> balances s 0 (sender c)
      \<longrightarrow> makePayment c v i s = Inl InvoiceHasExpired)
   \<and> (\<forall>s'. makePayment c v i s = Inr s' \<longrightarrow>
        (let early = (0 < earlyPaymentDiscountBps (terms (invoices s i))
                      \<and> now c \<le> earlyPaymentDeadline (terms (invoices s i)));
             due = (if early
                    then amount (invoices s i)
                       - amount (invoices s i)
                           * earlyPaymentDiscountBps (terms (invoices s i)) div 10000
                    else amount (invoices s i))
         in now c \<le> dueDate (invoices s i)
          \<and> paymentDue (now c) (invoices s i) = Inr (due, early)
          \<and> (if token (invoices s i) = 0 then v = due
              else v = 0 \<and> TransferIn (token (invoices s i)) (sender c) due \<in> set (trace s'))
          \<and> Emit (PaymentMade i (sender c) (amount (invoices s i)) due early)
              \<in> set (trace s')))"
proof (intro conjI allI impI)
  assume a: "status (invoices s i) = Created \<and> dueDate (invoices s i) < now c"
  then show "\<exists>e. makePayment c v i s = Inl e"
    by (simp add: makePayment_def receive_value_def modifier_defs Let_def)
next
  assume "status (invoices s i) = Created \<and> dueDate (invoices s i) < now c
       \<and> \<not> paused s \<and> \<not> entered s \<and> invoice_id (invoices s i) \<noteq> 0
       \<and> client (invoices s i) = sender c \<and> v \<le> balances s 0 (sender c)"
  then show "makePayment c v i s = Inl InvoiceHasExpired"
    by (simp add: makePayment_def receive_value_def modifier_defs Let_def)
next
  fix s'
  assume ok: "makePayment c v i s = Inr s'"
  from ok obtain pay early where
    pd: "paymentDue (now c) (invoices s i) = Inr (pay, early)"
    and tr: "trace s' = trace s
       @ (if token (invoices s i) = 0 then []
          else [TransferIn (token (invoices s i)) (sender c) pay])
       @ [EscrowWrite i pay,
          StatusWrite i (if requiresApproval (terms (invoices s i)) then Paid else Approved),
          Emit (PaymentMade i (sender c) (amount (invoices s i)) pay early)]
       @ (if requiresApproval (terms (invoices s i)) then []
          else [EscrowWrite i 0, StatusWrite i Completed,
                TransferOut (token (invoices s i)) (provider (invoices s i))
                  (pay - pay * 50 div 10000),
                TransferOut (token (invoices s i)) (feeCollector s) (pay * 50 div 10000),
                Emit (FundsReleased i (provider (invoices s i))
                  (pay - pay * 50 div 10000) (pay * 50 div 10000))])"
    by (rule makePayment_trace)
  from ok obtain pay' early' where
    pd': "paymentDue (now c) (invoices s i) = Inr (pay', early')"
    and due: "now c \<le> dueDate (invoices s i)"
    and tv: "if token (invoices s i) = 0 then v = pay' else v = 0"
    by (rule makePayment_effect)
  from pd pd' have same: "pay' = pay" by simp
  note val = paymentDue_value(1,2) [OF pd]
  have ev: "Emit (PaymentMade i (sender c) (amount (invoices s i)) pay early) \<in> set (trace s')"
    by (simp add: tr)
  have ti: "token (invoices s i) \<noteq> 0 \<Longrightarrow>
      TransferIn (token (invoices s i)) (sender c) pay \<in> set (trace s')"
    by (simp add: tr)
  from val have e: "early = (0 < earlyPaymentDiscountBps (terms (invoices s i))
                      \<and> now c \<le> earlyPaymentDeadline (terms (invoices s i)))"
    by simp
  show "let early = (0 < earlyPaymentDiscountBps (terms (invoices s i))
                      \<and> now c \<le> earlyPaymentDeadline (terms (invoices s i)));
             due = (if early
                    then amount (invoices s i)
                       - amount (invoices s i)
                           * earlyPaymentDiscountBps (terms (invoices s i)) div 10000
                    else amount (invoices s i))
         in now c \<le> dueDate (invoices s i)
          \<and> paymentDue (now c) (invoices s i) = Inr (due, early)
          \<and> (if token (invoices s i) = 0 then v = due
              else v = 0 \<and> TransferIn (token (invoices s i)) (sender c) due \<in> set (trace s'))
          \<and> Emit (PaymentMade i (sender c) (amount (invoices s i)) due early)
              \<in> set (trace s')"
    unfolding Let_def e [symmetric] val(2) [symmetric]
    using due pd tv ev ti by (simp add: same)
qed

theorem makePayment_due_witness:
  "makePayment (demo_call 20 2592101) 1000 1 (demo_state [demo_create True])
     = Inl InvoiceHasExpired
   \<and> (\<exists>s'. makePayment (demo_call 20 200) 950 1 (demo_state [demo_create True]) = Inr s'
        \<and> paymentDue 200 (invoices (demo_state [demo_create True]) 1) = Inr (950, True)
        \<and> Emit (PaymentMade 1 20 1000 950 True) \<in> set (trace s'))
   \<and> (\<exists>s'. makePayment (demo_call 20 1296101) 1000 1 (demo_state [demo_create True]) = Inr s'
        \<and> paymentDue 1296101 (invoices (demo_state [demo_create True]) 1) = Inr (1000, False)
        \<and> Emit (PaymentMade 1 20 1000 1000 False) \<in> set (trace s'))"
proof -
  have st: "status (invoices (demo_state [demo_create True]) 1) = Created
       \<and> dueDate (invoices (demo_state [demo_create True]) 1) < now (demo_call 20 2592101)
       \<and> \<not> paused (demo_state [demo_create True]) \<and> \<not> entered (demo_state [demo_create True])
       \<and> invoice_id (invoices (demo_state [demo_create True]) 1) \<noteq> 0
       \<and> client (invoices (demo_state [demo_create True]) 1) = sender (demo_call 20 2592101)
       \<and> 1000 \<le> balances (demo_state [demo_create True]) 0 (sender (demo_call 20 2592101))"
    by (simp add: demo_state_def eval_defs)
  obtain s1 where r1:
    "makePayment (demo_call 20 200) 950 1 (demo_state [demo_create True]) = Inr s1"
    by (simp add: demo_state_def eval_defs)
  obtain s2 where r2:
    "makePayment (demo_call 20 1296101) 1000 1 (demo_state [demo_create True]) = Inr s2"
    by (simp add: demo_state_def eval_defs)
  note t = makePayment_due [of "demo_state [demo_create True]" 1]
  from t [of "demo_call 20 2592101" 1000] st
  have a: "makePayment (demo_call 20 2592101) 1000 1 (demo_state [demo_create True])
     = Inl InvoiceHasExpired"
    by blast
  from t [of "demo_call 20 200" 950] r1
  have b: "paymentDue 200 (invoices (demo_state [demo_create True]) 1) = Inr (950, True)
        \<and> Emit (PaymentMade 1 20 1000 950 True) \<in> set (trace s1)"
    by (clarsimp simp add: Let_def demo_state_def eval_defs)
  from t [of "demo_call 20 1296101" 1000] r2
  have c: "paymentDue 1296101 (invoices (demo_state [demo_create True]) 1) = Inr (1000, False)
        \<and> Emit (PaymentMade 1 20 1000 1000 False) \<in> set (trace s2)"
    by (clarsimp simp add: Let_def demo_state_def eval_defs)
  from a b c r1 r2 show ?thesis by blast
qed

section \<open>Dispute resolution\<close>





section \<open>Transient approval\<close>

lemma approveInvoice_trace:
  assumes "approveInvoice c i s = Inr s'"
  shows "trace s' = trace s @
      [StatusWrite i Approved, Emit (InvoiceApproved i (sender c)),
       EscrowWrite i 0, StatusWrite i Completed,
       TransferOut (token (invoices s i)) (provider (invoices s i))
         (escrowBalances s i - escrowBalances s i * 50 div 10000),
       TransferOut (token (invoices s i)) (feeCollector s)
         (escrowBalances s i * 50 div 10000),
       Emit (FundsReleased i (provider (invoices s i))
         (escrowBalances s i - escrowBalances s i * 50 div 10000)
         (escrowBalances s i * 50 div 10000))]"
  using releaseFunds_trace(1) [OF approveInvoice_cases(6) [OF assms]]
  by (simp add: set_status_def emit_def)

lemma paymentDue_positive:
  assumes "ledger_inv s" "invoice_id (invoices s i) \<noteq> 0"
    "paymentDue t (invoices s i) = Inr (pay, early)"
  shows "0 < pay"
proof -
  from assms(1,2) have tm: "0 < amount (invoices s i)"
    "earlyPaymentDiscountBps (terms (invoices s i)) \<le> 1000"
    by (simp_all add: ledger_inv_def inv_terms_def MAX_EARLY_DISCOUNT_BPS_def)
  show ?thesis
    using paymentDue_value(2) [OF assms(3)] discount_less [OF tm] tm(1)
    by (simp split: if_splits)
qed

text \<open>
  C10. \<open>Approved\<close> is never the status of an invoice between calls. The two operations
  that write it settle in the same call: a successful \<^verbatim>\<open>makePayment\<close> on an invoice that
  requires no approval and a successful \<^verbatim>\<open>approveInvoice\<close> both end with status
  \<open>Completed\<close> and escrow balance 0, \<^verbatim>\<open>approveInvoice\<close> writing \<open>Approved\<close> and then
  the effects of \<^verbatim>\<open>_releaseFunds\<close>. The escrow released is positive: a \<open>Paid\<close> invoice
  holds a positive escrow balance, and the amount due on an existing invoice is
  positive at any time. A dispute is only ever raised on a \<open>Paid\<close> invoice.
\<close>

theorem approved_is_transient:
  assumes "reachable s"
  shows "status (invoices s i) \<noteq> Approved
    \<and> (\<forall>c v s'. makePayment c v i s = Inr s' \<and> \<not> requiresApproval (terms (invoices s i))
          \<longrightarrow> StatusWrite i Approved \<in> set (trace s')
            \<and> status (invoices s' i) = Completed \<and> escrowBalances s' i = 0)
    \<and> (\<forall>c s'. approveInvoice c i s = Inr s'
          \<longrightarrow> status (invoices s' i) = Completed \<and> escrowBalances s' i = 0
            \<and> trace s' = trace s @
                [StatusWrite i Approved, Emit (InvoiceApproved i (sender c)),
                 EscrowWrite i 0, StatusWrite i Completed,
                 TransferOut (token (invoices s i)) (provider (invoices s i))
                   (escrowBalances s i - escrowBalances s i * 50 div 10000),
                 TransferOut (token (invoices s i)) (feeCollector s)
                   (escrowBalances s i * 50 div 10000),
                 Emit (FundsReleased i (provider (invoices s i))
                   (escrowBalances s i - escrowBalances s i * 50 div 10000)
                   (escrowBalances s i * 50 div 10000))])
    \<and> (status (invoices s i) = Paid \<longrightarrow> 0 < escrowBalances s i)
    \<and> (\<forall>t pay early. invoice_id (invoices s i) \<noteq> 0
          \<and> paymentDue t (invoices s i) = Inr (pay, early) \<longrightarrow> 0 < pay)
    \<and> (\<forall>c r s'. raiseDispute c i r s = Inr s' \<longrightarrow> status (invoices s i) = Paid)"
proof -
  note iv = reachable_inv [OF assms]
  have a: "status (invoices s i) \<noteq> Approved"
    using iv by (simp add: ledger_inv_def inv_no_approved_def)
  have b: "StatusWrite i Approved \<in> set (trace s')
            \<and> status (invoices s' i) = Completed \<and> escrowBalances s' i = 0"
    if "makePayment c v i s = Inr s' \<and> \<not> requiresApproval (terms (invoices s i))" for c v s'
  proof -
    from that have ok: "makePayment c v i s = Inr s'"
      and na: "\<not> requiresApproval (terms (invoices s i))" by simp_all
    from ok obtain pay early where
      "invoices s' = (invoices s)(i := (invoices s i)
         \<lparr>status := (if requiresApproval (terms (invoices s i)) then Paid else Completed),
          paidAt := now c\<rparr>)"
      "escrowBalances s' = (escrowBalances s)
         (i := (if requiresApproval (terms (invoices s i)) then pay else 0))"
      by (rule makePayment_effect)
    moreover from ok obtain pay' early' where
      "trace s' = trace s
       @ (if token (invoices s i) = 0 then []
          else [TransferIn (token (invoices s i)) (sender c) pay'])
       @ [EscrowWrite i pay',
          StatusWrite i (if requiresApproval (terms (invoices s i)) then Paid else Approved),
          Emit (PaymentMade i (sender c) (amount (invoices s i)) pay' early')]
       @ (if requiresApproval (terms (invoices s i)) then []
          else [EscrowWrite i 0, StatusWrite i Completed,
                TransferOut (token (invoices s i)) (provider (invoices s i))
                  (pay' - pay' * 50 div 10000),
                TransferOut (token (invoices s i)) (feeCollector s) (pay' * 50 div 10000),
                Emit (FundsReleased i (provider (invoices s i))
                  (pay' - pay' * 50 div 10000) (pay' * 50 div 10000))])"
      by (rule makePayment_trace)
    ultimately show ?thesis using na by simp
  qed
  have c: "status (invoices s' i) = Completed \<and> escrowBalances s' i = 0
            \<and> trace s' = trace s @
                [StatusWrite i Approved, Emit (InvoiceApproved i (sender c)),
                 EscrowWrite i 0, StatusWrite i Completed,
                 TransferOut (token (invoices s i)) (provider (invoices s i))
                   (escrowBalances s i - escrowBalances s i * 50 div 10000),
                 TransferOut (token (invoices s i)) (feeCollector s)
                   (escrowBalances s i * 50 div 10000),
                 Emit (FundsReleased i (provider (invoices s i))
                   (escrowBalances s i - escrowBalances s i * 50 div 10000)
                   (escrowBalances s i * 50 div 10000))]"
    if "approveInvoice c i s = Inr s'" for c s'
    using approveInvoice_effect(7,8) [OF that] approveInvoice_trace [OF that] by simp
  have d: "status (invoices s i) = Paid \<longrightarrow> 0 < escrowBalances s i"
    using iv by (simp add: ledger_inv_def inv_funded_def)
  have e: "0 < pay"
    if "invoice_id (invoices s i) \<noteq> 0 \<and> paymentDue t (invoices s i) = Inr (pay, early)"
    for t pay early
    using that paymentDue_positive [OF iv] by blast
  have f: "status (invoices s i) = Paid" if "raiseDispute c i r s = Inr s'" for c r s'
    using raiseDispute_effect(4) [OF that] a by simp
  from a b c d e f show ?thesis by blast
qed

theorem approved_is_transient_witness:
  "reachable (demo_state [demo_create False])
   \<and> reachable (demo_state [demo_create True, demo_pay])
   \<and> status (invoices (demo_state [demo_create True, demo_pay]) 1) = Paid
   \<and> 0 < escrowBalances (demo_state [demo_create True, demo_pay]) 1
   \<and> (\<exists>s'. makePayment (demo_call 20 200) 950 1 (demo_state [demo_create False]) = Inr s'
        \<and> StatusWrite 1 Approved \<in> set (trace s') \<and> status (invoices s' 1) = Completed)
   \<and> (\<exists>s'. approveInvoice (demo_call 20 300) 1 (demo_state [demo_create True, demo_pay])
          = Inr s'
        \<and> status (invoices s' 1) = Completed \<and> escrowBalances s' 1 = 0)
   \<and> (\<exists>s'. raiseDispute (demo_call 10 300) 1 ''late''
          (demo_state [demo_create True, demo_pay]) = Inr s')"
proof -
  have r1: "reachable (demo_state [demo_create False])"
    by (rule demo_state_reachable) (simp_all add: eval_defs)
  have r2: "reachable (demo_state [demo_create True, demo_pay])"
    by (rule demo_state_reachable) (simp_all add: eval_defs)
  have na: "\<not> requiresApproval (terms (invoices (demo_state [demo_create False]) 1))"
    by (simp add: demo_state_def eval_defs)
  have pd: "status (invoices (demo_state [demo_create True, demo_pay]) 1) = Paid"
    by (simp add: demo_state_def eval_defs)
  obtain s1 where p: "makePayment (demo_call 20 200) 950 1 (demo_state [demo_create False])
      = Inr s1"
    by (simp add: demo_state_def eval_defs)
  obtain s2 where a: "approveInvoice (demo_call 20 300) 1
      (demo_state [demo_create True, demo_pay]) = Inr s2"
    by (simp add: demo_state_def eval_defs)
  obtain s3 where d: "raiseDispute (demo_call 10 300) 1 ''late''
      (demo_state [demo_create True, demo_pay]) = Inr s3"
    by (simp add: demo_state_def eval_defs)
  from approved_is_transient [OF r1, of 1] p na
  have "StatusWrite 1 Approved \<in> set (trace s1) \<and> status (invoices s1 1) = Completed"
    by blast
  moreover from approved_is_transient [OF r2, of 1] a pd
  have "status (invoices s2 1) = Completed \<and> escrowBalances s2 1 = 0
      \<and> 0 < escrowBalances (demo_state [demo_create True, demo_pay]) 1"
    by blast
  ultimately show ?thesis using r1 r2 pd p a d by blast
qed

section \<open>Dispute reasons\<close>

text \<open>
  C9, as the code has it. \<^verbatim>\<open>raiseDispute\<close> stores a non-empty reason together with
  status \<open>Disputed\<close>, and nothing ever clears a stored reason: \<^verbatim>\<open>resolveDispute\<close> leaves
  it in place. So in every reachable state an invoice id with a non-empty dispute reason
  is \<open>Disputed\<close>, or was disputed and is now \<open>Completed\<close> or \<open>Refunded\<close>.
\<close>

theorem dispute_reason_kept:
  assumes "reachable s"
  shows "(disputeReasons s i \<noteq> [] \<longrightarrow>
            status (invoices s i) = Disputed \<or> status (invoices s i) = Completed
          \<or> status (invoices s i) = Refunded)
    \<and> (\<forall>c r s'. raiseDispute c i r s = Inr s' \<longrightarrow>
          r \<noteq> [] \<and> disputeReasons s' i = r \<and> status (invoices s' i) = Disputed)
    \<and> (\<forall>c fp s'. resolveDispute c i fp s = Inr s' \<longrightarrow>
          disputeReasons s' i = disputeReasons s i \<and> disputeReasons s i \<noteq> []
        \<and> status (invoices s' i) = (if fp then Completed else Refunded))"
proof -
  note iv = reachable_inv [OF assms]
  have a: "disputeReasons s i \<noteq> [] \<longrightarrow>
            status (invoices s i) = Disputed \<or> status (invoices s i) = Completed
          \<or> status (invoices s i) = Refunded"
    using iv by (simp add: ledger_inv_def inv_reason_def)
  have b: "r \<noteq> [] \<and> disputeReasons s' i = r \<and> status (invoices s' i) = Disputed"
    if "raiseDispute c i r s = Inr s'" for c r s'
    using raiseDispute_effect(5,6) [OF that] by simp
  have c: "disputeReasons s' i = disputeReasons s i \<and> disputeReasons s i \<noteq> []
        \<and> status (invoices s' i) = (if fp then Completed else Refunded)"
    if "resolveDispute c i fp s = Inr s'" for c fp s'
    using resolveDispute_effect(3,7,9) [OF that] iv
    by (simp add: ledger_inv_def inv_disputed_def)
  from a b c show ?thesis by blast
qed

theorem dispute_reason_kept_witness:
  "reachable (demo_state [demo_create True, demo_pay])
   \<and> reachable (demo_state [demo_create True, demo_pay, demo_dispute])
   \<and> disputeReasons (demo_state [demo_create True, demo_pay, demo_dispute]) 1 \<noteq> []
   \<and> status (invoices (demo_state [demo_create True, demo_pay, demo_dispute]) 1) = Disputed
   \<and> (\<exists>s'. raiseDispute (demo_call 10 300) 1 ''late''
          (demo_state [demo_create True, demo_pay]) = Inr s'
        \<and> disputeReasons s' 1 = ''late'' \<and> status (invoices s' 1) = Disputed)
   \<and> (\<exists>s'. resolveDispute (demo_call 30 400) 1 False
          (demo_state [demo_create True, demo_pay, demo_dispute]) = Inr s'
        \<and> disputeReasons s' 1 = ''late'' \<and> status (invoices s' 1) = Refunded)"
proof -
  have r1: "reachable (demo_state [demo_create True, demo_pay])"
    by (rule demo_state_reachable) (simp_all add: eval_defs)
  have r2: "reachable (demo_state [demo_create True, demo_pay, demo_dispute])"
    by (rule demo_state_reachable) (simp_all add: eval_defs)
  have ne: "disputeReasons (demo_state [demo_create True, demo_pay, demo_dispute]) 1 = ''late''"
    by (simp add: demo_state_def eval_defs)
  have st: "status (invoices (demo_state [demo_create True, demo_pay, demo_dispute]) 1)
      \<noteq> Completed
    \<and> status (invoices (demo_state [demo_create True, demo_pay, demo_dispute]) 1) \<noteq> Refunded"
    by (simp add: demo_state_def eval_defs)
  obtain s1 where d: "raiseDispute (demo_call 10 300) 1 ''late''
      (demo_state [demo_create True, demo_pay]) = Inr s1"
    by (simp add: demo_state_def eval_defs)
  obtain s2 where f: "resolveDispute (demo_call 30 400) 1 False
      (demo_state [demo_create True, demo_pay, demo_dispute]) = Inr s2"
    by (simp add: demo_state_def eval_defs)
  from dispute_reason_kept [OF r1, of 1] d
  have a: "disputeReasons s1 1 = ''late'' \<and> status (invoices s1 1) = Disputed"
    by blast
  from dispute_reason_kept [OF r2, of 1] f ne st
  have b: "disputeReasons s2 1 = ''late'' \<and> status (invoices s2 1) = Refunded
    \<and> status (invoices (demo_state [demo_create True, demo_pay, demo_dispute]) 1) = Disputed"
    by (simp split: if_splits)
  from a b r1 r2 ne d f show ?thesis by auto
qed

text \<open>
  The dispute reason outlives the dispute: after the arbitrator has refunded the
  client, invoice 1 is \<open>Refunded\<close> and its stored reason is still the one given when
  the dispute was raised.
\<close>

theorem dispute_reason_after_refund:
  "reachable (demo_state [demo_create True, demo_pay, demo_dispute, demo_refund])
   \<and> status (invoices (demo_state [demo_create True, demo_pay, demo_dispute, demo_refund]) 1)
       = Refunded
   \<and> disputeReasons (demo_state [demo_create True, demo_pay, demo_dispute, demo_refund]) 1
       = ''late''"
proof -
  have "reachable (demo_state [demo_create True, demo_pay, demo_dispute, demo_refund])"
    by (rule demo_state_reachable) (simp_all add: eval_defs demo_refund_def)
  then show ?thesis by (simp add: demo_state_def eval_defs demo_refund_def)
qed

section \<open>Terminal states\<close>

text \<open>
  C3, as the code has it. On an invoice whose status is \<open>Completed\<close>, \<open>Cancelled\<close> or
  \<open>Refunded\<close>, each of the five lifecycle operations reverts, whoever calls it, and the
  state after the call is the state before it. The revert reason is that of the first
  check that fails, in the order in which the operation makes its checks:
  \<^item> \<^verbatim>\<open>makePayment\<close>: the caller holds the value sent (else the call carrying it
    fails), not paused, reentrancy flag clear, the invoice exists, the caller is the
    client, and last the status, "Invoice cannot be paid";
  \<^item> \<^verbatim>\<open>approveInvoice\<close>: not paused, the invoice exists, the caller is the client, and
    last the status, "Invoice not in paid status";
  \<^item> \<^verbatim>\<open>raiseDispute\<close>: not paused, the invoice exists, the caller is the provider or
    the client, and last the status, "Cannot dispute invoice in current status";
  \<^item> \<^verbatim>\<open>resolveDispute\<close>: not paused, the invoice exists, and then the status,
    "Invoice not disputed", before the caller is looked at;
  \<^item> \<^verbatim>\<open>cancelInvoice\<close>: not paused, the invoice exists, the caller is the provider, and
    last the status, "Can only cancel unpaid invoices".

  So the revert reason is an invalid-state error exactly when the checks before the
  status check pass.
\<close>

theorem terminal_status_is_final:
  assumes "status (invoices s i) = Completed \<or> status (invoices s i) = Cancelled
         \<or> status (invoices s i) = Refunded"
    and "op = MakePayment v i \<or> op = ApproveInvoice i \<or> op = RaiseDispute i r
         \<or> op = ResolveDispute i fp \<or> op = CancelInvoice i"
  shows "(\<exists>e. transact c op s = (s, Some e))
    \<and> (passes_guards c op s \<longrightarrow> (\<exists>e. exec c op s = Inl e \<and> state_error e))
    \<and> (\<not> passes_guards c op s \<longrightarrow> (\<exists>e. exec c op s = Inl e \<and> \<not> state_error e))
    \<and> makePayment c v i s = Inl
         (if balances s 0 (sender c) < v then TransferFailed
          else if paused s then EnforcedPause
          else if entered s then ReentrancyGuardReentrantCall
          else if invoice_id (invoices s i) = 0 then InvoiceDoesNotExist
          else if client (invoices s i) \<noteq> sender c then OnlyClient
          else InvoiceCannotBePaid)
    \<and> approveInvoice c i s = Inl
         (if paused s then EnforcedPause
          else if invoice_id (invoices s i) = 0 then InvoiceDoesNotExist
          else if client (invoices s i) \<noteq> sender c then OnlyClient
          else InvoiceNotInPaidStatus)
    \<and> raiseDispute c i r s = Inl
         (if paused s then EnforcedPause
          else if invoice_id (invoices s i) = 0 then InvoiceDoesNotExist
          else if provider (invoices s i) \<noteq> sender c \<and> client (invoices s i) \<noteq> sender c
          then OnlyProviderOrClient
          else CannotDisputeInCurrentStatus)
    \<and> resolveDispute c i fp s = Inl
         (if paused s then EnforcedPause
          else if invoice_id (invoices s i) = 0 then InvoiceDoesNotExist
          else InvoiceNotDisputed)
    \<and> cancelInvoice c i s = Inl
         (if paused s then EnforcedPause
          else if invoice_id (invoices s i) = 0 then InvoiceDoesNotExist
          else if provider (invoices s i) \<noteq> sender c then OnlyProvider
          else CanOnlyCancelUnpaid)"
proof -
  have mp: "makePayment c v i s = Inl
         (if balances s 0 (sender c) < v then TransferFailed
          else if paused s then EnforcedPause
          else if entered s then ReentrancyGuardReentrantCall
          else if invoice_id (invoices s i) = 0 then InvoiceDoesNotExist
          else if client (invoices s i) \<noteq> sender c then OnlyClient
          else InvoiceCannotBePaid)"
    using assms(1)
    by (auto simp add: makePayment_def receive_value_def modifier_defs Let_def)
  have ap: "approveInvoice c i s = Inl
         (if paused s then EnforcedPause
          else if invoice_id (invoices s i) = 0 then InvoiceDoesNotExist
          else if client (invoices s i) \<noteq> sender c then OnlyClient
          else InvoiceNotInPaidStatus)"
    using assms(1) by (auto simp add: approveInvoice_def modifier_defs Let_def)
  have rd: "raiseDispute c i r s = Inl
         (if paused s then EnforcedPause
          else if invoice_id (invoices s i) = 0 then InvoiceDoesNotExist
          else if provider (invoices s i) \<noteq> sender c \<and> client (invoices s i) \<noteq> sender c
          then OnlyProviderOrClient
          else CannotDisputeInCurrentStatus)"
    using assms(1) by (auto simp add: raiseDispute_def modifier_defs Let_def)
  have rs: "resolveDispute c i fp s = Inl
         (if paused s then EnforcedPause
          else if invoice_id (invoices s i) = 0 then InvoiceDoesNotExist
          else InvoiceNotDisputed)"
    using assms(1) by (auto simp add: resolveDispute_def modifier_defs Let_def)
  have ca: "cancelInvoice c i s = Inl
         (if paused s then EnforcedPause
          else if invoice_id (invoices s i) = 0 then InvoiceDoesNotExist
          else if provider (invoices s i) \<noteq> sender c then OnlyProvider
          else CanOnlyCancelUnpaid)"
    using assms(1) by (auto simp add: cancelInvoice_def modifier_defs Let_def)
  have tr: "\<exists>e. transact c op s = (s, Some e)"
    using assms(2) mp ap rd rs ca by (auto simp add: transact_def)
  have pg: "passes_guards c op s \<longrightarrow> (\<exists>e. exec c op s = Inl e \<and> state_error e)"
    using assms(2) mp ap rd rs ca by (auto simp add: state_error_def)
  have ng: "\<not> passes_guards c op s \<longrightarrow> (\<exists>e. exec c op s = Inl e \<and> \<not> state_error e)"
    using assms(2) mp ap rd rs ca by (auto simp add: state_error_def)
  from tr pg ng mp ap rd rs ca show ?thesis by blast
qed

theorem terminal_status_is_final_witness:
  "status (invoices (demo_state [demo_create False, demo_pay]) 1) = Completed
   \<and> passes_guards (demo_call 20 300) (ApproveInvoice 1) (demo_state [demo_create False, demo_pay])
   \<and> transact (demo_call 20 300) (ApproveInvoice 1) (demo_state [demo_create False, demo_pay])
       = (demo_state [demo_create False, demo_pay], Some InvoiceNotInPaidStatus)
   \<and> state_error InvoiceNotInPaidStatus
   \<and> cancelInvoice (demo_call 20 300) 1 (demo_state [demo_create False, demo_pay])
       = Inl OnlyProvider
   \<and> cancelInvoice (demo_call 10 300) 1 (demo_state [demo_create False, demo_pay])
       = Inl CanOnlyCancelUnpaid"
proof -
  let ?s = "demo_state [demo_create False, demo_pay]"
  have st: "status (invoices ?s 1) = Completed"
    by (simp add: demo_state_def eval_defs)
  have g: "passes_guards (demo_call 20 300) (ApproveInvoice 1) ?s"
    by (simp add: demo_state_def eval_defs)
  have f: "\<not> paused ?s" "invoice_id (invoices ?s 1) \<noteq> 0" "provider (invoices ?s 1) = 10"
    "client (invoices ?s 1) = 20"
    by (simp_all add: demo_state_def eval_defs)
  note t = terminal_status_is_final [of ?s 1 "ApproveInvoice 1" _ _ _ _, OF disjI1 [OF st]]
  from t [of _ _ _ "demo_call 20 300"] g f
  have a: "transact (demo_call 20 300) (ApproveInvoice 1) ?s = (?s, Some InvoiceNotInPaidStatus)
      \<and> state_error InvoiceNotInPaidStatus
      \<and> cancelInvoice (demo_call 20 300) 1 ?s = Inl OnlyProvider"
    by (auto simp add: transact_def demo_call_def state_error_def)
  from t [of _ _ _ "demo_call 10 300"] f
  have b: "cancelInvoice (demo_call 10 300) 1 ?s = Inl CanOnlyCancelUnpaid"
    by (auto simp add: demo_call_def)
  from st g a b show ?thesis by blast
qed

text \<open>
  A lifecycle operation on a \<open>Completed\<close> invoice that does not fail with an
  invalid-state error: the provider (not the client) calls \<^verbatim>\<open>makePayment\<close> on the
  settled invoice 1 and gets "Only client can call this".
\<close>

theorem terminal_status_other_error:
  "reachable (demo_state [demo_create False, demo_pay])
   \<and> status (invoices (demo_state [demo_create False, demo_pay]) 1) = Completed
   \<and> makePayment (demo_call 10 300) 0 1 (demo_state [demo_create False, demo_pay])
       = Inl OnlyClient
   \<and> \<not> state_error OnlyClient"
proof -
  have "reachable (demo_state [demo_create False, demo_pay])"
    by (rule demo_state_reachable) (simp_all add: eval_defs)
  then show ?thesis by (simp add: demo_state_def eval_defs state_error_def)
qed

section \<open>Escrow coverage\<close>

lemma sum_list_upt_cong:
  assumes "\<And>j. j < n \<Longrightarrow> f' j = f j"
  shows "sum_list (map f' [0..<n]) = sum_list (map f [0..<n])"
  using assms by (intro arg_cong [where f = sum_list] map_cong) simp_all

lemma sum_list_upt_update:
  fixes f f' :: "nat \<Rightarrow> nat"
  assumes "i < n" "\<And>j. j < n \<Longrightarrow> j \<noteq> i \<Longrightarrow> f' j = f j"
  shows "sum_list (map f' [0..<n]) + f i = sum_list (map f [0..<n]) + f' i"
  using assms
proof (induction n)
  case 0
  then show ?case by simp
next
  case (Suc n)
  show ?case
  proof (cases "i = n")
    case True
    have "sum_list (map f' [0..<n]) = sum_list (map f [0..<n])"
      using Suc.prems(2) True by (intro sum_list_upt_cong) simp
    with True show ?thesis by simp
  next
    case False
    with Suc.prems have "i < n" by simp
    moreover have "\<And>j. j < n \<Longrightarrow> j \<noteq> i \<Longrightarrow> f' j = f j" using Suc.prems(2) by simp
    ultimately have "sum_list (map f' [0..<n]) + f i = sum_list (map f [0..<n]) + f' i"
      by (rule Suc.IH)
    moreover have "f' n = f n" using Suc.prems(2) False by simp
    ultimately show ?thesis by simp
  qed
qed

lemma escrowed_same:
  assumes "nextInvoiceId s' = nextInvoiceId s" "escrowBalances s' = escrowBalances s"
    "\<And>j. token (invoices s' j) = token (invoices s j)"
  shows "escrowed s' tok = escrowed s tok"
  by (simp add: escrowed_def assms cong: if_cong)

lemma escrowed_update:
  assumes "i < nextInvoiceId s" "nextInvoiceId s' = nextInvoiceId s"
    "escrowBalances s' = (escrowBalances s)(i := e')"
    "\<And>j. token (invoices s' j) = token (invoices s j)"
  shows "escrowed s' tok + (if token (invoices s i) = tok then escrowBalances s i else 0)
       = escrowed s tok + (if token (invoices s i) = tok then e' else 0)"
proof -
  let ?f = "\<lambda>j. if token (invoices s j) = tok then escrowBalances s j else 0"
  let ?f' = "\<lambda>j. if token (invoices s' j) = tok then escrowBalances s' j else 0"
  have "sum_list (map ?f' [0..<nextInvoiceId s]) + ?f i
      = sum_list (map ?f [0..<nextInvoiceId s]) + ?f' i"
    using assms(1) by (rule sum_list_upt_update) (simp add: assms(3,4))
  then show ?thesis by (simp add: escrowed_def assms)
qed

lemma escrowed_createInvoice:
  assumes "ledger_inv s" "createInvoice c cl amt tk tms ipfs s = Inr (n, s')"
  shows "escrowed s' tok = escrowed s tok"
proof -
  note e = createInvoice_effect [OF assms(2)]
  from assms(1) have z: "escrowBalances s (nextInvoiceId s) = 0"
    by (simp add: ledger_inv_def inv_fresh_def)
  have "sum_list (map (\<lambda>j. if token (invoices s' j) = tok then escrowBalances s' j else 0)
          [0..<nextInvoiceId s])
      = sum_list (map (\<lambda>j. if token (invoices s j) = tok then escrowBalances s j else 0)
          [0..<nextInvoiceId s])"
    by (rule sum_list_upt_cong) (simp add: e)
  then show ?thesis by (simp add: escrowed_def e(12,14) z)
qed

lemma move_other_token:
  "tok' \<noteq> tok \<Longrightarrow> move tok src dst amt b tok' = b tok'"
  by (simp add: move_def Let_def)

lemma move_out_lower:
  "b tok' src - (if tok' = tok then amt else 0) \<le> move tok src dst amt b tok' src"
  by (simp add: move_def Let_def)

lemma move_out_exact:
  "dst \<noteq> src \<Longrightarrow> move tok src dst amt b tok' src = b tok' src - (if tok' = tok then amt else 0)"
  by (simp add: move_def Let_def)

lemma move_in_exact:
  "src \<noteq> dst \<Longrightarrow> move tok src dst amt b tok' dst = b tok' dst + (if tok' = tok then amt else 0)"
  by (simp add: move_def Let_def)

lemma releaseFunds_held:
  assumes "releaseFunds i s = Inr s'"
  shows "balances s tok' (this s)
       - (if tok' = token (invoices s i) then escrowBalances s i else 0)
     \<le> balances s' tok' (this s')"
proof -
  note t = releaseFunds_trace [OF assms]
  define tok where "tok = token (invoices s i)"
  define fee where "fee = escrowBalances s i * 50 div 10000"
  define pa where "pa = escrowBalances s i - fee"
  define b1 where "b1 = move tok (this s) (provider (invoices s i)) pa (balances s)"
  define b2 where "b2 = move tok (this s) (feeCollector s) fee b1"
  have 1: "balances s tok' (this s) - (if tok' = tok then pa else 0) \<le> b1 tok' (this s)"
    unfolding b1_def by (rule move_out_lower)
  have 2: "b1 tok' (this s) - (if tok' = tok then fee else 0) \<le> b2 tok' (this s)"
    unfolding b2_def by (rule move_out_lower)
  have 3: "fee \<le> escrowBalances s i" using t(3) by (simp only: fee_def)
  have 4: "balances s' = b2" "this s' = this s"
    using t(2) releaseFunds_effect(8) [OF assms]
    by (simp_all only: b2_def b1_def pa_def fee_def tok_def)
  from 1 2 3 have "balances s tok' (this s)
       - (if tok' = tok then escrowBalances s i else 0) \<le> b2 tok' (this s)"
    by (auto simp add: pa_def split: if_splits)
  then show ?thesis by (simp only: 4 tok_def)
qed

lemma exists_assigned:
  assumes "ledger_inv s" "invoice_id (invoices s i) \<noteq> 0"
  shows "i < nextInvoiceId s"
proof (rule ccontr)
  assume "\<not> i < nextInvoiceId s"
  then have "nextInvoiceId s \<le> i" by simp
  with assms(1) have "invoice_id (invoices s i) = 0"
    by (simp add: ledger_inv_def inv_fresh_def)
  with assms(2) show False by simp
qed

lemma covered_releaseFunds:
  assumes "releaseFunds i s = Inr s'" "i < nextInvoiceId s" "covered s tok"
  shows "covered s' tok"
proof -
  note e = releaseFunds_effect [OF assms(1)]
  have "escrowed s' tok + (if token (invoices s i) = tok then escrowBalances s i else 0)
       = escrowed s tok + (if token (invoices s i) = tok then 0 else 0)"
    using assms(2) e(5) e(3) by (rule escrowed_update) (simp add: e(4))
  moreover have "balances s tok (this s)
       - (if tok = token (invoices s i) then escrowBalances s i else 0)
     \<le> balances s' tok (this s')"
    using assms(1) by (rule releaseFunds_held)
  ultimately show ?thesis using assms(3)
    by (auto simp add: covered_def split: if_splits)
qed

lemma covered_createInvoice:
  assumes "ledger_inv s" "createInvoice c cl amt tk tms ipfs s = Inr (n, s')" "covered s tok"
  shows "covered s' tok"
  using assms(3) escrowed_createInvoice [OF assms(1,2), of tok]
    createInvoice_effect(17,18) [OF assms(2)]
  by (simp add: covered_def)

lemma covered_approveInvoice:
  assumes "ledger_inv s" "approveInvoice c i s = Inr s'" "covered s tok"
  shows "covered s' tok"
proof -
  note a = approveInvoice_cases [OF assms(2)]
  let ?s2 = "emit (InvoiceApproved i (sender c)) (set_status i Approved s)"
  have "escrowed ?s2 tok = escrowed s tok"
    by (rule escrowed_same) (simp_all add: emit_def set_status_def)
  with assms(3) have "covered ?s2 tok"
    by (simp add: covered_def emit_def set_status_def)
  moreover have "i < nextInvoiceId ?s2"
    using exists_assigned [OF assms(1) a(2)] by (simp add: emit_def set_status_def)
  ultimately show ?thesis using a(6) by (intro covered_releaseFunds [of i ?s2 s' tok])
qed

lemma covered_raiseDispute:
  assumes "raiseDispute c i r s = Inr s'" "covered s tok"
  shows "covered s' tok"
proof -
  note e = raiseDispute_effect(6) [OF assms(1)]
  have "escrowed s' tok = escrowed s tok"
    by (rule escrowed_same) (simp_all add: e)
  with assms(2) show ?thesis by (simp add: covered_def e)
qed

lemma covered_cancelInvoice:
  assumes "cancelInvoice c i s = Inr s'" "covered s tok"
  shows "covered s' tok"
proof -
  note e = cancelInvoice_effect(5) [OF assms(1)]
  have "escrowed s' tok = escrowed s tok"
    by (rule escrowed_same) (simp_all add: e)
  with assms(2) show ?thesis by (simp add: covered_def e)
qed

lemma resolveDispute_balances:
  assumes "resolveDispute c i fp s = Inr s'"
  shows "escrowBalances s i * 50 div 10000 \<le> escrowBalances s i"
    "balances s' =
      (if fp then
         move (token (invoices s i)) (this s) (feeCollector s)
           (escrowBalances s i * 50 div 10000)
           (move (token (invoices s i)) (this s) (provider (invoices s i))
              (escrowBalances s i - escrowBalances s i * 50 div 10000) (balances s))
       else move (token (invoices s i)) (this s) (client (invoices s i))
              (escrowBalances s i) (balances s))"
  using assms
  by (auto simp: resolveDispute_def Let_def modifier_defs and_then_Inr_iff prim_defs
      PLATFORM_FEE_BPS_def split: if_splits)

lemma resolveDispute_held:
  assumes "resolveDispute c i fp s = Inr s'"
  shows "balances s tok' (this s)
       - (if tok' = token (invoices s i) then escrowBalances s i else 0)
     \<le> balances s' tok' (this s')"
proof -
  note t = resolveDispute_balances [OF assms]
  note e = resolveDispute_effect [OF assms]
  define tok where "tok = token (invoices s i)"
  define fee where "fee = escrowBalances s i * 50 div 10000"
  define pa where "pa = escrowBalances s i - fee"
  define b1 where "b1 = move tok (this s) (provider (invoices s i)) pa (balances s)"
  define b2 where "b2 = move tok (this s) (feeCollector s) fee b1"
  define b3 where "b3 = move tok (this s) (client (invoices s i)) (escrowBalances s i) (balances s)"
  have 1: "balances s tok' (this s) - (if tok' = tok then pa else 0) \<le> b1 tok' (this s)"
    unfolding b1_def by (rule move_out_lower)
  have 2: "b1 tok' (this s) - (if tok' = tok then fee else 0) \<le> b2 tok' (this s)"
    unfolding b2_def by (rule move_out_lower)
  have 3: "fee \<le> escrowBalances s i" using t(1) by (simp only: fee_def)
  from 1 2 3 have p: "balances s tok' (this s)
       - (if tok' = tok then escrowBalances s i else 0) \<le> b2 tok' (this s)"
    by (auto simp add: pa_def split: if_splits)
  have q: "balances s tok' (this s)
       - (if tok' = tok then escrowBalances s i else 0) \<le> b3 tok' (this s)"
    unfolding b3_def by (rule move_out_lower)
  have 4: "balances s' = (if fp then b2 else b3)"
    using t(2) by (simp only: b3_def b2_def b1_def pa_def fee_def tok_def)
  from p q show ?thesis by (simp add: 4 e(11) tok_def [symmetric])
qed

lemma covered_resolveDispute:
  assumes "ledger_inv s" "resolveDispute c i fp s = Inr s'" "covered s tok"
  shows "covered s' tok"
proof -
  note e = resolveDispute_effect [OF assms(2)]
  have "escrowed s' tok + (if token (invoices s i) = tok then escrowBalances s i else 0)
       = escrowed s tok + (if token (invoices s i) = tok then 0 else 0)"
    using exists_assigned [OF assms(1) e(2)] e(8) e(6)
    by (rule escrowed_update) (simp add: e(7))
  moreover have "balances s tok (this s)
       - (if tok = token (invoices s i) then escrowBalances s i else 0)
     \<le> balances s' tok (this s')"
    using assms(2) by (rule resolveDispute_held)
  ultimately show ?thesis using assms(3)
    by (auto simp add: covered_def split: if_splits)
qed

lemma covered_makePayment:
  assumes "ledger_inv s" "makePayment c v i s = Inr s'" "sender c \<noteq> this s" "covered s tok"
  shows "covered s' tok"
proof -
  from assms(2) obtain s0 sg pay early s1 s6 where
    r: "receive_value (sender c) v s = Inr s0"
    and g: "nonReentrantBefore s0 = Inr sg"
    and ex: "invoice_id (invoices sg i) \<noteq> 0"
    and cr: "status (invoices sg i) = Created"
    and cp: "collectPayment c v (invoices sg i) pay sg = Inr s1"
    and rel: "if \<not> requiresApproval (terms (invoices sg i))
       then releaseFunds i (recordPayment c i (invoices sg i) pay early s1) = Inr s6
       else s6 = recordPayment c i (invoices sg i) pay early s1"
    and fin: "s' = nonReentrantAfter s6"
    by (rule makePayment_cases)
  note rf = receive_value_frame [OF r]
  note gf = nonReentrantBefore_frame [OF g]
  note cf = collectPayment_frame [OF cp]
  define s5 where "s5 = recordPayment c i (invoices s i) pay early s1"
  have sg: "invoices sg = invoices s" "escrowBalances sg = escrowBalances s"
    "nextInvoiceId sg = nextInvoiceId s" "this sg = this s"
    "balances sg = move 0 (sender c) (this s) v (balances s)"
    by (simp_all add: gf rf)
  have lt: "i < nextInvoiceId s"
    using exists_assigned [OF assms(1)] ex by (simp add: sg)
  have zero: "escrowBalances s i = 0"
    using assms(1) cr by (simp add: ledger_inv_def inv_escrow_def sg)
  have held1: "balances s1 tok (this s)
      = balances s tok (this s) + (if tok = token (invoices s i) then pay else 0)"
  proof (cases "token (invoices s i) = 0")
    case True
    with cf(10) have "v = pay" "balances s1 = balances sg" by (simp_all add: sg)
    then show ?thesis
      using assms(3) True by (simp add: sg move_in_exact)
  next
    case False
    with cf(11) have "v = 0"
      "balances s1 = move (token (invoices s i)) (sender c) (this s) pay (balances sg)"
      by (simp_all add: sg)
    then show ?thesis
      using assms(3) by (simp add: sg move_in_exact)
  qed
  have "escrowed s5 tok + (if token (invoices s i) = tok then escrowBalances s i else 0)
       = escrowed s tok + (if token (invoices s i) = tok then pay else 0)"
    using lt by (rule escrowed_update) (simp_all add: s5_def recordPayment_sel cf sg)
  with held1 zero assms(4) have c5: "covered s5 tok"
    by (auto simp add: covered_def s5_def recordPayment_sel cf sg)
  have "covered s6 tok"
  proof (cases "requiresApproval (terms (invoices s i))")
    case True
    with rel have "s6 = s5" by (simp add: s5_def sg)
    with c5 show ?thesis by simp
  next
    case False
    with rel have "releaseFunds i s5 = Inr s6" by (simp add: s5_def sg)
    moreover have "i < nextInvoiceId s5"
      using lt by (simp add: s5_def recordPayment_sel cf sg)
    ultimately show ?thesis using c5 by (rule covered_releaseFunds)
  qed
  moreover have "escrowed s' tok = escrowed s6 tok"
    by (rule escrowed_same) (simp_all add: fin nonReentrantAfter_def)
  ultimately show ?thesis by (simp add: covered_def fin nonReentrantAfter_def)
qed

lemma admin_balances:
  assumes "op = AddSupportedToken t \<or> op = RemoveSupportedToken t \<or> op = SetFeeCollector t \<or>
     op = Pause \<or> op = Unpause \<or> op = TransferOwnership t \<or> op = RenounceOwnership"
    and "exec c op s = Inr s'"
  shows "balances s' = balances s"
  using assms
  by (auto simp: addSupportedToken_def removeSupportedToken_def setFeeCollector_def pause_def
      unpause_def transferOwnership_def renounceOwnership_def
      modifier_defs split: if_splits)

lemma covered_admin:
  assumes "op = AddSupportedToken t \<or> op = RemoveSupportedToken t \<or> op = SetFeeCollector t \<or>
     op = Pause \<or> op = Unpause \<or> op = TransferOwnership t \<or> op = RenounceOwnership"
    and "exec c op s = Inr s'" "covered s tok"
  shows "covered s' tok"
proof -
  have f: "nextInvoiceId s' = nextInvoiceId s" "invoices s' = invoices s"
    "escrowBalances s' = escrowBalances s" "this s' = this s"
    using assms(1,2) admin_frame [of op t _ c s s'] by auto
  have "escrowed s' tok = escrowed s tok"
    by (rule escrowed_same) (simp_all add: f)
  with assms(3) admin_balances [OF assms(1,2)] show ?thesis
    by (simp add: covered_def f)
qed

lemma emergencyWithdraw_effect:
  assumes "emergencyWithdraw c t a s = Inr s'"
  shows "sender c = owner s" "a \<le> balances s t (this s)"
    "balances s' = move t (this s) (owner s) a (balances s)"
    "nextInvoiceId s' = nextInvoiceId s" "invoices s' = invoices s"
    "escrowBalances s' = escrowBalances s" "this s' = this s"
    "trace s' = trace s @ [TransferOut t (owner s) a]"
  using assms
  by (auto simp: emergencyWithdraw_def modifier_defs prim_defs split: if_splits)

lemma covered_emergencyWithdraw:
  assumes "emergencyWithdraw c t a s = Inr s'" "sender c \<noteq> this s"
  shows "covered s' tok \<longleftrightarrow>
     escrowed s tok + (if tok = t then a else 0) \<le> balances s tok (this s)"
proof -
  note e = emergencyWithdraw_effect [OF assms(1)]
  have "escrowed s' tok = escrowed s tok"
    by (rule escrowed_same) (simp_all add: e)
  moreover have "balances s' tok (this s)
      = balances s tok (this s) - (if tok = t then a else 0)"
    using assms(2) e(1) by (simp add: e(3) move_out_exact)
  ultimately show ?thesis using e(2) by (auto simp add: covered_def e(7))
qed

lemma covered_exec:
  assumes "ledger_inv s" "sender c \<noteq> this s" "covered s tok" "exec c op s = Inr s'"
    "\<And>a. op \<noteq> EmergencyWithdraw tok a"
  shows "covered s' tok"
proof (cases op)
  case (CreateInvoice cl amt tk tms ipfs)
  with assms(4) obtain n where "createInvoice c cl amt tk tms ipfs s = Inr (n, s')"
    by (auto elim!: and_thenE)
  with assms(1) show ?thesis using assms(3) by (rule covered_createInvoice)
next
  case (MakePayment v i)
  with assms show ?thesis by (simp add: covered_makePayment)
next
  case (ApproveInvoice i)
  with assms show ?thesis by (simp add: covered_approveInvoice)
next
  case (RaiseDispute i r)
  with assms show ?thesis by (simp add: covered_raiseDispute)
next
  case (ResolveDispute i fp)
  with assms show ?thesis by (simp add: covered_resolveDispute)
next
  case (CancelInvoice i)
  with assms show ?thesis by (simp add: covered_cancelInvoice)
next
  case (AddSupportedToken t)
  then show ?thesis using assms covered_admin [of op t c s s' tok] by simp
next
  case (RemoveSupportedToken t)
  then show ?thesis using assms covered_admin [of op t c s s' tok] by simp
next
  case (SetFeeCollector t)
  then show ?thesis using assms covered_admin [of op t c s s' tok] by simp
next
  case Pause
  then show ?thesis using assms covered_admin [of op _ c s s' tok] by simp
next
  case Unpause
  then show ?thesis using assms covered_admin [of op _ c s s' tok] by simp
next
  case (EmergencyWithdraw t a)
  with assms(5) have ne: "tok \<noteq> t" by auto
  from EmergencyWithdraw assms(4) have "emergencyWithdraw c t a s = Inr s'" by simp
  from covered_emergencyWithdraw [OF this assms(2), of tok] ne assms(3)
  show ?thesis by (simp add: covered_def)
next
  case (TransferOwnership t)
  then show ?thesis using assms covered_admin [of op t c s s' tok] by simp
next
  case RenounceOwnership
  then show ?thesis using assms covered_admin [of op _ c s s' tok] by simp
qed

lemma covered_run:
  assumes "reachable s" "covered s tok" "run ops s = Inr s'"
    "list_all (\<lambda>x. sender (fst x) \<noteq> this s \<and> (\<forall>a. snd x \<noteq> EmergencyWithdraw tok a)) ops"
  shows "covered s' tok"
  using assms
proof (induction ops arbitrary: s)
  case Nil
  then show ?case by simp
next
  case (Cons x ops)
  obtain c op where x: "x = (c, op)" by (cases x)
  from Cons.prems(3) x obtain s1 where e: "exec c op s = Inr s1" and r: "run ops s1 = Inr s'"
    by (auto elim!: and_thenE)
  from Cons.prems(4) x have nt: "sender c \<noteq> this s" and ne: "\<And>a. op \<noteq> EmergencyWithdraw tok a"
    by simp_all
  from Cons.prems(1) nt e have r1: "reachable s1" by (rule reachable.step)
  have c1: "covered s1 tok"
    using reachable_inv [OF Cons.prems(1)] nt Cons.prems(2) e ne by (rule covered_exec)
  have "list_all (\<lambda>x. sender (fst x) \<noteq> this s1 \<and> (\<forall>a. snd x \<noteq> EmergencyWithdraw tok a)) ops"
    using Cons.prems(4) exec_this [OF e] by simp
  with r1 c1 r show ?case by (rule Cons.IH)
qed

lemma covered_constructor:
  assumes "constructor c fc self bal blk = Inr s"
  shows "covered s tok" "this s = self"
  using assms
  by (auto simp: constructor_def covered_def escrowed_def split: if_splits)

text \<open>
  C8, as the code has it. \<^verbatim>\<open>emergencyWithdraw\<close> reverts for every caller but the owner,
  and for the owner it sends the requested amount of the token out of the contract's
  holdings without looking at any escrow balance. From the deployment on, as long as no
  \<^verbatim>\<open>emergencyWithdraw\<close> of a token occurs, the escrow balances of the invoices in that
  token sum to at most what the contract holds of it; every other operation preserves
  this. An \<^verbatim>\<open>emergencyWithdraw\<close> of amount \<open>a\<close> preserves it exactly when the escrow sum
  plus \<open>a\<close> is at most the holdings, that is when \<open>a\<close> is taken from the surplus.
\<close>

theorem escrow_coverage:
  "(sender c \<noteq> owner s \<longrightarrow> emergencyWithdraw c tok a s = Inl OwnableUnauthorizedAccount)
   \<and> (constructor c0 fc self bal blk = Inr s0 \<and> run ops s0 = Inr s
       \<and> list_all (\<lambda>x. sender (fst x) \<noteq> self \<and> (\<forall>a. snd x \<noteq> EmergencyWithdraw tok a)) ops
      \<longrightarrow> covered s tok)
   \<and> (reachable s \<and> sender c \<noteq> this s \<and> covered s tok \<longrightarrow>
        (\<forall>s'. exec c op s = Inr s' \<and> (\<forall>a. op \<noteq> EmergencyWithdraw tok a) \<longrightarrow> covered s' tok)
      \<and> (\<forall>s'. emergencyWithdraw c tok a s = Inr s' \<longrightarrow>
            sender c = owner s
          \<and> trace s' = trace s @ [TransferOut tok (owner s) a]
          \<and> balances s' tok (this s') = balances s tok (this s) - a
          \<and> escrowed s' tok = escrowed s tok
          \<and> (covered s' tok \<longleftrightarrow> escrowed s tok + a \<le> balances s tok (this s))))"
proof (intro conjI impI allI)
  assume "sender c \<noteq> owner s"
  then show "emergencyWithdraw c tok a s = Inl OwnableUnauthorizedAccount"
    by (auto simp add: emergencyWithdraw_def onlyOwner_def)
next
  assume h: "constructor c0 fc self bal blk = Inr s0 \<and> run ops s0 = Inr s
       \<and> list_all (\<lambda>x. sender (fst x) \<noteq> self \<and> (\<forall>a. snd x \<noteq> EmergencyWithdraw tok a)) ops"
  then have c0: "constructor c0 fc self bal blk = Inr s0" and r: "run ops s0 = Inr s"
    and l: "list_all (\<lambda>x. sender (fst x) \<noteq> self \<and> (\<forall>a. snd x \<noteq> EmergencyWithdraw tok a)) ops"
    by simp_all
  from c0 have "reachable s0" by (rule reachable.deploy)
  moreover note covered_constructor(1) [OF c0, of tok] r
  moreover from l covered_constructor(2) [OF c0]
  have "list_all (\<lambda>x. sender (fst x) \<noteq> this s0 \<and> (\<forall>a. snd x \<noteq> EmergencyWithdraw tok a)) ops"
    by simp
  ultimately show "covered s tok" by (rule covered_run)
next
  fix s'
  assume h: "reachable s \<and> sender c \<noteq> this s \<and> covered s tok"
    and e: "exec c op s = Inr s' \<and> (\<forall>a. op \<noteq> EmergencyWithdraw tok a)"
  from h e show "covered s' tok"
    using covered_exec [of s c tok op s'] reachable_inv [of s] by blast
next
  fix s'
  assume h: "reachable s \<and> sender c \<noteq> this s \<and> covered s tok"
    and e: "emergencyWithdraw c tok a s = Inr s'"
  note w = emergencyWithdraw_effect [OF e]
  from h have nt: "sender c \<noteq> this s" by simp
  show "sender c = owner s" by (rule w(1))
  show "trace s' = trace s @ [TransferOut tok (owner s) a]" by (rule w(8))
  show "balances s' tok (this s') = balances s tok (this s) - a"
    using nt w(1) by (simp add: w(3,7) move_out_exact)
  show "escrowed s' tok = escrowed s tok"
    by (rule escrowed_same) (simp_all add: w)
  show "covered s' tok \<longleftrightarrow> escrowed s tok + a \<le> balances s tok (this s)"
    using covered_emergencyWithdraw [OF e nt, of tok] by simp
qed

theorem escrow_coverage_witness:
  "emergencyWithdraw (demo_call 20 300) 0 7 (demo_stray_state [demo_create True, demo_pay])
     = Inl OwnableUnauthorizedAccount
   \<and> covered (demo_stray_state [demo_create True, demo_pay]) 0
   \<and> escrowed (demo_stray_state [demo_create True, demo_pay]) 0 = 950
   \<and> balances (demo_stray_state [demo_create True, demo_pay]) 0 99 = 957
   \<and> (\<exists>s'. approveInvoice (demo_call 20 300) 1 (demo_stray_state [demo_create True, demo_pay])
          = Inr s' \<and> covered s' 0)
   \<and> (\<exists>s'. emergencyWithdraw (demo_call 1 300) 0 7
          (demo_stray_state [demo_create True, demo_pay]) = Inr s'
        \<and> balances s' 0 99 = 950 \<and> escrowed s' 0 = 950 \<and> covered s' 0)"
proof -
  let ?s = "demo_stray_state [demo_create True, demo_pay]"
  have c0: "constructor (demo_call 1 0) 2 99 demo_stray_world (\<lambda>_ _ _. False) = Inr demo_stray"
    by (simp add: constructor_def demo_defs demo_stray_world_def demo_stray_def)
  have r: "run [demo_create True, demo_pay] demo_stray = Inr ?s"
    by (simp add: demo_stray_state_def eval_defs demo_stray_world_def demo_stray_def)
  have l: "list_all (\<lambda>x. sender (fst x) \<noteq> 99 \<and> (\<forall>a. snd x \<noteq> EmergencyWithdraw 0 a))
      [demo_create True, demo_pay]"
    by (simp add: demo_defs demo_stray_world_def demo_stray_def)
  have re: "reachable ?s"
    using reachable.deploy [OF c0] _ r by (rule reachable_run) (simp add: demo_defs demo_stray_world_def demo_stray_def)
  have ow: "sender (demo_call 20 300) \<noteq> owner ?s"
    by (simp add: demo_stray_state_def eval_defs demo_stray_world_def demo_stray_def)
  have nt: "sender (demo_call 20 300) \<noteq> this ?s" "sender (demo_call 1 300) \<noteq> this ?s"
    by (simp_all add: demo_stray_state_def eval_defs demo_stray_world_def demo_stray_def)
  have es: "escrowed ?s 0 = 950" "balances ?s 0 99 = 957" "this ?s = 99"
    by (simp_all add: escrowed_def demo_stray_state_def eval_defs demo_stray_world_def demo_stray_def)
  obtain s1 where a: "exec (demo_call 20 300) (ApproveInvoice 1) ?s = Inr s1"
    by (simp add: demo_stray_state_def eval_defs demo_stray_world_def demo_stray_def)
  obtain s2 where w: "emergencyWithdraw (demo_call 1 300) 0 7 ?s = Inr s2"
    by (simp add: demo_stray_state_def eval_defs demo_stray_world_def demo_stray_def)
  note t = escrow_coverage [of _ ?s 0 _ "demo_call 1 0" 2 99 demo_stray_world
      "\<lambda>_ _ _. False" demo_stray
      "[demo_create True, demo_pay]"]
  from t [of "demo_call 20 300" 7] ow
  have 1: "emergencyWithdraw (demo_call 20 300) 0 7 ?s = Inl OwnableUnauthorizedAccount"
    by blast
  from t [of "demo_call 20 300" 7] c0 r l have 2: "covered ?s 0" by blast
  from t [of "demo_call 20 300" 7 "ApproveInvoice 1"] re nt(1) 2 a
  have 3: "covered s1 0" by blast
  from t [of "demo_call 1 300" 7] re nt(2) 2 w
  have 4: "balances s2 0 (this s2) = balances ?s 0 (this ?s) - 7 \<and> escrowed s2 0 = escrowed ?s 0
      \<and> (covered s2 0 \<longleftrightarrow> escrowed ?s 0 + 7 \<le> balances ?s 0 (this ?s))"
    by blast
  have "this s2 = 99" using emergencyWithdraw_effect(7) [OF w] es(3) by simp
  with 4 have 5: "balances s2 0 99 = 950 \<and> escrowed s2 0 = 950 \<and> covered s2 0"
    by (simp add: es)
  from 1 2 3 5 es a w show ?thesis by auto
qed

text \<open>
  The administrator empties an escrow that is in use: after invoice 1 has been paid
  (escrow balance 950, held by the contract), \<^verbatim>\<open>emergencyWithdraw\<close> of 950 succeeds,
  and the contract then holds nothing against an escrow sum of 950.
\<close>

theorem emergencyWithdraw_drains_escrow:
  "reachable (demo_state [demo_create True, demo_pay, demo_withdraw])
   \<and> status (invoices (demo_state [demo_create True, demo_pay, demo_withdraw]) 1) = Paid
   \<and> escrowed (demo_state [demo_create True, demo_pay, demo_withdraw]) 0 = 950
   \<and> balances (demo_state [demo_create True, demo_pay, demo_withdraw]) 0
       (this (demo_state [demo_create True, demo_pay, demo_withdraw])) = 0
   \<and> \<not> covered (demo_state [demo_create True, demo_pay, demo_withdraw]) 0"
proof -
  have "reachable (demo_state [demo_create True, demo_pay, demo_withdraw])"
    by (rule demo_state_reachable) (simp_all add: eval_defs demo_withdraw_def)
  then show ?thesis
    by (simp add: covered_def escrowed_def demo_state_def eval_defs demo_withdraw_def)
qed

end
